theory Spec2Isabelle
  imports Main "HOL-Library.AList"
begin

unbundle bit_operations_syntax

section \<open>The windowing API the program calls\<close>

text \<open>
  \<^verbatim>\<open>fullscreen.py\<close> talks to the operating system through \<^verbatim>\<open>win32gui\<close>,
  \<^verbatim>\<open>win32process\<close>, \<^verbatim>\<open>win32api\<close> and \<^verbatim>\<open>psutil\<close>. The model
  keeps, for every window handle, the values these calls read and write, and counts the
  calls made so far. Each call can be refused on its own (the call raises), since the
  program wraps the calls in \<^verbatim>\<open>try\<close> blocks and a handle can stop denoting a
  window at any time: \<open>refuses sys n c h\<close> says that call number \<open>n\<close>, when it is the
  call \<open>c\<close> on handle \<open>h\<close>, raises. A call on a handle that never denoted a window
  raises too. The answers of \<^verbatim>\<open>psutil\<close> depend on the call number in the same way.
  The operating system of the model stores what it is given: the style written by
  \<^verbatim>\<open>SetWindowLong\<close> is the style \<^verbatim>\<open>GetWindowLong\<close> reads, and
  \<^verbatim>\<open>SetWindowPos\<close> with position and size makes that the window's rectangle.
  Style values are Python integers, so they are \<^typ>\<open>int\<close>, with the bitwise
  operations of two's complement that Python has on them.
\<close>

type_synonym hwnd = nat
type_synonym pid = nat
type_synonym rect = "int \<times> int \<times> int \<times> int"
type_synonym pystr = "nat list" \<comment> \<open>a Python \<^verbatim>\<open>str\<close> as its code points\<close>

record window =
  w_style :: int
  w_exstyle :: int
  w_rect :: rect
  w_title :: pystr
  w_visible :: bool
  w_pid :: pid

datatype oscall =
    IsWindowVisible
  | GetWindowText
  | GetWindowThreadProcessId
  | GetWindowLong_STYLE
  | GetWindowLong_EXSTYLE
  | GetWindowRect
  | SetWindowLong_STYLE
  | SetWindowLong_EXSTYLE
  | SetWindowPos

text \<open>What \<^verbatim>\<open>psutil.Process(pid).name()\<close> does: a name, one of the two exceptions
  the program catches by name, or any other exception.\<close>

datatype psutil_name = Name string | NoSuchProcess | AccessDenied | OtherFailure

record os =
  wins :: "hwnd \<rightharpoonup> window"
  refuses :: "nat \<Rightarrow> oscall \<Rightarrow> hwnd \<Rightarrow> bool"
  calls :: nat \<comment> \<open>the number of calls made so far\<close>
  toplevel :: "hwnd list" \<comment> \<open>the handles \<^verbatim>\<open>EnumWindows\<close> visits, in order\<close>
  enum_stops_after :: "nat option" \<comment> \<open>\<^verbatim>\<open>EnumWindows\<close> raises after so many windows\<close>
  process_name_of :: "nat \<Rightarrow> pid \<Rightarrow> psutil_name"
  pid_exists :: "pid \<Rightarrow> bool"
  screen :: "int \<times> int" \<comment> \<open>\<^verbatim>\<open>SM_CXSCREEN\<close>, \<^verbatim>\<open>SM_CYSCREEN\<close>\<close>

datatype error = OSError oscall hwnd | PsutilError pid

definition called :: "os \<Rightarrow> os" where
  \<comment> \<open>the operating system after one more call\<close>
  "called sys = sys\<lparr>calls := calls sys + 1\<rparr>"

definition os_read :: "os \<Rightarrow> oscall \<Rightarrow> hwnd \<Rightarrow> (window \<Rightarrow> 'a) \<Rightarrow> error + 'a" where
  \<comment> \<open>the answer to a reading call made now; the caller goes on with \<open>called sys\<close>\<close>
  "os_read sys c h f =
     (case wins sys h of
        None \<Rightarrow> Inl (OSError c h)
      | Some w \<Rightarrow> if refuses sys (calls sys) c h then Inl (OSError c h) else Inr (f w))"

definition os_write :: "os \<Rightarrow> oscall \<Rightarrow> hwnd \<Rightarrow> (window \<Rightarrow> window) \<Rightarrow> error + os" where
  \<comment> \<open>a writing call made now; when it raises, the caller goes on with \<open>called sys\<close>\<close>
  "os_write sys c h f =
     (case wins sys h of
        None \<Rightarrow> Inl (OSError c h)
      | Some w \<Rightarrow> if refuses sys (calls sys) c h then Inl (OSError c h)
                  else Inr (called (sys\<lparr>wins := (wins sys)(h \<mapsto> f w)\<rparr>)))"

definition set_window_pos :: "os \<Rightarrow> hwnd \<Rightarrow> int \<Rightarrow> int \<Rightarrow> int \<Rightarrow> int \<Rightarrow> error + os" where
  \<comment> \<open>\<^verbatim>\<open>SetWindowPos(hwnd, HWND_TOP, x, y, cx, cy, SWP_FRAMECHANGED | SWP_NOZORDER | SWP_SHOWWINDOW)\<close>\<close>
  "set_window_pos sys h x y cx cy =
     os_write sys SetWindowPos h (\<lambda>w. w\<lparr>w_rect := (x, y, x + cx, y + cy), w_visible := True\<rparr>)"

section \<open>Constants\<close>

definition WS_BORDER :: int where "WS_BORDER = 0x00800000"
definition WS_DLGFRAME :: int where "WS_DLGFRAME = 0x00400000"
definition WS_CAPTION :: int where "WS_CAPTION = WS_BORDER OR WS_DLGFRAME"
definition WS_SYSMENU :: int where "WS_SYSMENU = 0x00080000"
definition WS_THICKFRAME :: int where "WS_THICKFRAME = 0x00040000"
definition WS_MINIMIZEBOX :: int where "WS_MINIMIZEBOX = 0x00020000"
definition WS_MAXIMIZEBOX :: int where "WS_MAXIMIZEBOX = 0x00010000"

definition WS_EX_DLGMODALFRAME :: int where "WS_EX_DLGMODALFRAME = 0x00000001"
definition WS_EX_CLIENTEDGE :: int where "WS_EX_CLIENTEDGE = 0x00000200"
definition WS_EX_STATICEDGE :: int where "WS_EX_STATICEDGE = 0x00020000"

section \<open>The shared state\<close>

text \<open>
  The two module globals, together with the operating system they are about.
  \<^verbatim>\<open>window_style_cache\<close> is only ever looked up, stored into and deleted from by
  key, so it is a map; \<^verbatim>\<open>last_fullscreen_by_pid\<close> is also iterated over
  (\<^verbatim>\<open>list(last_fullscreen_by_pid.keys())\<close>), so it is an association list in
  insertion order, as a Python \<^verbatim>\<open>dict\<close> is. The lock is not modelled: every
  function here runs to its end before the next one starts.
\<close>

type_synonym snapshot = "int \<times> int \<times> rect"

record state =
  os :: os
  window_style_cache :: "hwnd \<rightharpoonup> snapshot"
  last_fullscreen_by_pid :: "(pid \<times> string \<times> rect option) list"

datatype outcome = Returned | Raised error

section \<open>\<^verbatim>\<open>set_borderless_fullscreen\<close>\<close>

definition read_snapshot :: "os \<Rightarrow> hwnd \<Rightarrow> (error + snapshot) \<times> os" where
  \<comment> \<open>lines 135 to 137: the three reads, the first failure raises\<close>
  "read_snapshot sys h =
     (let sys1 = called sys; sys2 = called sys1; sys3 = called sys2
      in case os_read sys GetWindowLong_STYLE h w_style of
           Inl e \<Rightarrow> (Inl e, sys1)
         | Inr style \<Rightarrow>
             (case os_read sys1 GetWindowLong_EXSTYLE h w_exstyle of
                Inl e \<Rightarrow> (Inl e, sys2)
              | Inr exstyle \<Rightarrow>
                  (case os_read sys2 GetWindowRect h w_rect of
                     Inl e \<Rightarrow> (Inl e, sys3)
                   | Inr r \<Rightarrow> (Inr (style, exstyle, r), sys3))))"

definition cache_original :: "'a state_scheme \<Rightarrow> hwnd \<Rightarrow> outcome \<times> 'a state_scheme" where
  \<comment> \<open>lines 133 to 141\<close>
  "cache_original s h =
     (if window_style_cache s h = None then
        (case read_snapshot (os s) h of
           (Inl e, sys) \<Rightarrow> (Raised e, s\<lparr>os := sys\<rparr>)
         | (Inr snap, sys) \<Rightarrow>
             (Returned, s\<lparr>os := sys, window_style_cache := (window_style_cache s)(h \<mapsto> snap)\<rparr>))
      else (Returned, s))"

definition store_pid_mapping ::
  "'a state_scheme \<Rightarrow> hwnd \<Rightarrow> rect option \<Rightarrow> outcome \<times> 'a state_scheme" where
  \<comment> \<open>lines 144 to 154; \<^verbatim>\<open>if pid:\<close> is false for \<^verbatim>\<open>None\<close> and for 0\<close>
  "store_pid_mapping s h monitor_rect =
     (let sys1 = called (os s); sys2 = called sys1
      in case os_read (os s) GetWindowThreadProcessId h w_pid of
           Inl e \<Rightarrow> (Returned, s\<lparr>os := sys1\<rparr>)
         | Inr p \<Rightarrow>
             if p = 0 then (Returned, s\<lparr>os := sys1\<rparr>)
             else
               (case process_name_of sys1 (calls sys1) p of
                  OtherFailure \<Rightarrow> (Raised (PsutilError p), s\<lparr>os := sys2\<rparr>)
                | Name n \<Rightarrow>
                    (Returned,
                     s\<lparr>os := sys2,
                       last_fullscreen_by_pid :=
                         AList.update p (n, monitor_rect) (last_fullscreen_by_pid s)\<rparr>)
                | _ \<Rightarrow>
                    (Returned,
                     s\<lparr>os := sys2,
                       last_fullscreen_by_pid :=
                         AList.update p (''Unknown'', monitor_rect) (last_fullscreen_by_pid s)\<rparr>)))"

definition chrome_style :: int where
  "chrome_style = (WS_CAPTION OR WS_THICKFRAME OR WS_MINIMIZEBOX OR WS_MAXIMIZEBOX OR WS_SYSMENU)"

definition chrome_exstyle :: int where
  "chrome_exstyle = (WS_EX_DLGMODALFRAME OR WS_EX_CLIENTEDGE OR WS_EX_STATICEDGE)"

definition target_of :: "os \<Rightarrow> rect option \<Rightarrow> int \<times> int \<times> int \<times> int" where
  \<comment> \<open>lines 169 to 177: left, top, width, height\<close>
  "target_of sys monitor_rect =
     (case monitor_rect of
        Some (left, top', right, bottom) \<Rightarrow> (left, top', right - left, bottom - top')
      | None \<Rightarrow> (0, 0, fst (screen sys), snd (screen sys)))"

definition strip_and_resize :: "os \<Rightarrow> hwnd \<Rightarrow> rect option \<Rightarrow> outcome \<times> os" where
  \<comment> \<open>lines 157 to 187; a write that raises leaves the earlier writes in place\<close>
  "strip_and_resize sys h monitor_rect =
     (let sys1 = called sys; sys2 = called sys1
      in
     (case os_read sys GetWindowLong_STYLE h w_style of
        Inl e \<Rightarrow> (Raised e, sys1)
      | Inr new_style \<Rightarrow>
     (case os_read sys1 GetWindowLong_EXSTYLE h w_exstyle of
        Inl e \<Rightarrow> (Raised e, sys2)
      | Inr new_exstyle \<Rightarrow>
     (case os_write sys2 SetWindowLong_STYLE h
             (\<lambda>w. w\<lparr>w_style := new_style AND NOT chrome_style\<rparr>) of
        Inl e \<Rightarrow> (Raised e, called sys2)
      | Inr sys3 \<Rightarrow>
     (case os_write sys3 SetWindowLong_EXSTYLE h
             (\<lambda>w. w\<lparr>w_exstyle := new_exstyle AND NOT chrome_exstyle\<rparr>) of
        Inl e \<Rightarrow> (Raised e, called sys3)
      | Inr sys4 \<Rightarrow>
     (case target_of sys4 monitor_rect of (left, top', width, height) \<Rightarrow>
     (case set_window_pos sys4 h left top' width height of
        Inl e \<Rightarrow> (Raised e, called sys4)
      | Inr sys5 \<Rightarrow> (Returned, sys5))))))))"

definition set_borderless_fullscreen ::
  "'a state_scheme \<Rightarrow> hwnd \<Rightarrow> rect option \<Rightarrow> outcome \<times> 'a state_scheme" where
  "set_borderless_fullscreen s h monitor_rect =
     (case cache_original s h of
        (Raised e, s1) \<Rightarrow> (Raised e, s1)
      | (Returned, s1) \<Rightarrow>
          (case store_pid_mapping s1 h monitor_rect of
             (Raised e, s2) \<Rightarrow> (Raised e, s2)
           | (Returned, s2) \<Rightarrow>
               (case strip_and_resize (os s2) h monitor_rect of
                  (r, sys') \<Rightarrow> (r, s2\<lparr>os := sys'\<rparr>))))"

section \<open>\<^verbatim>\<open>revert_to_windowed\<close>\<close>

definition restore_styles :: "os \<Rightarrow> hwnd \<Rightarrow> int \<Rightarrow> int \<Rightarrow> os" where
  \<comment> \<open>lines 201 to 208: one \<^verbatim>\<open>try\<close> around both writes, the exception is printed\<close>
  "restore_styles sys h style exstyle =
     (case os_write sys SetWindowLong_STYLE h (\<lambda>w. w\<lparr>w_style := style\<rparr>) of
        Inl e \<Rightarrow> called sys
      | Inr sys1 \<Rightarrow>
          (case os_write sys1 SetWindowLong_EXSTYLE h (\<lambda>w. w\<lparr>w_exstyle := exstyle\<rparr>) of
             Inl e \<Rightarrow> called sys1
           | Inr sys2 \<Rightarrow> sys2))"

definition restore_rect :: "os \<Rightarrow> hwnd \<Rightarrow> rect \<Rightarrow> os" where
  \<comment> \<open>lines 210 to 225; a 4-tuple is always true in \<^verbatim>\<open>if rect:\<close>\<close>
  "restore_rect sys h r =
     (case r of (left, top', right, bottom) \<Rightarrow>
        (case set_window_pos sys h left top' (right - left) (bottom - top') of
           Inl e \<Rightarrow> called sys
         | Inr sys1 \<Rightarrow> sys1))"

definition restore_window :: "os \<Rightarrow> hwnd \<Rightarrow> snapshot \<Rightarrow> os" where
  \<comment> \<open>lines 201 to 225: the operating system once the revert has made its writes\<close>
  "restore_window sys h snap =
     (case snap of (style, exstyle, r) \<Rightarrow> restore_rect (restore_styles sys h style exstyle) h r)"

definition forget_pid_mapping ::
  "os \<Rightarrow> hwnd \<Rightarrow> (pid \<times> string \<times> rect option) list \<Rightarrow> (pid \<times> string \<times> rect option) list" where
  \<comment> \<open>lines 228 to 233, for the operating system at the time of the call of line 229\<close>
  "forget_pid_mapping sys h prefs =
     (case os_read sys GetWindowThreadProcessId h w_pid of
        Inl e \<Rightarrow> prefs
      | Inr p \<Rightarrow> if p \<noteq> 0 \<and> map_of prefs p \<noteq> None then AList.delete p prefs else prefs)"

definition revert_to_windowed :: "'a state_scheme \<Rightarrow> hwnd \<Rightarrow> 'a state_scheme" where
  "revert_to_windowed s h =
     (case window_style_cache s h of
        None \<Rightarrow> s
      | Some snap \<Rightarrow>
          (let sys1 = restore_window (os s) h snap
           in s\<lparr>os := called sys1,
                window_style_cache := (window_style_cache s)(h := None),
                last_fullscreen_by_pid := forget_pid_mapping sys1 h (last_fullscreen_by_pid s)\<rparr>))"

section \<open>\<^verbatim>\<open>WindowInfo\<close> and \<^verbatim>\<open>enum_windows\<close>\<close>

text \<open>
  The process name is only ever compared with another name, with the empty string and
  with \<^verbatim>\<open>"Unknown"\<close>, so it is a \<^typ>\<open>string\<close>; the title is tested
  for whitespace, so it is a list of code points.
\<close>

record WindowInfo =
  hwnd :: hwnd
  pid :: "pid option"
  process_name :: string
  title :: pystr

definition get_process_info :: "os \<Rightarrow> hwnd \<Rightarrow> WindowInfo \<times> os" where
  \<comment> \<open>lines 55 to 76: the constructor; any exception but the two named ones resets the pid\<close>
  "get_process_info sys h =
     (let t = (case os_read sys GetWindowText h w_title of Inl e \<Rightarrow> [] | Inr t \<Rightarrow> t);
          sys1 = called sys; sys2 = called sys1; sys3 = called sys2
      in case os_read sys1 GetWindowThreadProcessId h w_pid of
           Inl e \<Rightarrow> (\<lparr>hwnd = h, pid = None, process_name = ''Unknown'', title = t\<rparr>, sys2)
         | Inr p \<Rightarrow>
             (case process_name_of sys2 (calls sys2) p of
                Name n \<Rightarrow> (\<lparr>hwnd = h, pid = Some p, process_name = n, title = t\<rparr>, sys3)
              | OtherFailure \<Rightarrow>
                  (\<lparr>hwnd = h, pid = None, process_name = ''Unknown'', title = t\<rparr>, sys3)
              | _ \<Rightarrow> (\<lparr>hwnd = h, pid = Some p, process_name = ''Unknown'', title = t\<rparr>, sys3)))"

definition is_whitespace :: "nat \<Rightarrow> bool" where
  \<comment> \<open>the code points Python counts as whitespace\<close>
  "is_whitespace c \<longleftrightarrow>
     (9 \<le> c \<and> c \<le> 13) \<or> (28 \<le> c \<and> c \<le> 32) \<or> c = 133 \<or> c = 160 \<or> c = 5760
     \<or> (8192 \<le> c \<and> c \<le> 8202) \<or> c = 8232 \<or> c = 8233 \<or> c = 8239 \<or> c = 8287 \<or> c = 12288"

definition isspace :: "pystr \<Rightarrow> bool" where
  "isspace t \<longleftrightarrow> t \<noteq> [] \<and> list_all is_whitespace t"

definition callback :: "WindowInfo list \<times> os \<Rightarrow> hwnd \<Rightarrow> WindowInfo list \<times> os" where
  \<comment> \<open>lines 89 to 107, on the list collected so far\<close>
  "callback acc h =
     (case acc of (windows, sys) \<Rightarrow>
        (let sys1 = called sys; sys2 = called sys1
         in case os_read sys IsWindowVisible h w_visible of
              Inl e \<Rightarrow> (windows, sys1)
            | Inr visible \<Rightarrow>
                if \<not> visible then (windows, sys1)
                else
                  (case os_read sys1 GetWindowText h w_title of
                     Inl e \<Rightarrow> (windows, sys2)
                   | Inr t \<Rightarrow>
                       if t = [] \<or> isspace t then (windows, sys2)
                       else
                         (case get_process_info sys2 h of
                            (wi, sys3) \<Rightarrow>
                              if pid wi = None then (windows, sys3)
                              else if process_name wi = []
                                then (windows @ [wi\<lparr>process_name := ''Unknown''\<rparr>], sys3)
                                else (windows @ [wi], sys3)))))"

definition enum_windows :: "os \<Rightarrow> WindowInfo list \<times> os" where
  "enum_windows sys =
     foldl callback ([], sys)
       (case enum_stops_after sys of
          None \<Rightarrow> toplevel sys
        | Some n \<Rightarrow> take n (toplevel sys))"

section \<open>The application object\<close>

datatype list_name = windowed | fullscreen

record App = state +
  windowed_windows :: "WindowInfo list"
  fullscreen_windows :: "WindowInfo list"
  fullscreen_hwnds :: "hwnd set"
  selected_hwnd :: "hwnd option"
  selected_list :: "list_name option"
  is_minimized :: bool

fun pop_first :: "hwnd \<Rightarrow> WindowInfo list \<Rightarrow> (WindowInfo \<times> WindowInfo list) option" where
  "pop_first h [] = None"
| "pop_first h (w # ws) =
     (if hwnd w = h then Some (w, ws)
      else (case pop_first h ws of None \<Rightarrow> None | Some (x, rest) \<Rightarrow> Some (x, w # rest)))"

definition move_window_to_fullscreen :: "App \<Rightarrow> hwnd \<Rightarrow> App" where
  \<comment> \<open>lines 410 to 425\<close>
  "move_window_to_fullscreen a h =
     (case pop_first h (windowed_windows a) of
        None \<Rightarrow> a
      | Some (win_to_move, rest) \<Rightarrow>
          a\<lparr>windowed_windows := rest,
            fullscreen_windows := fullscreen_windows a @ [win_to_move],
            fullscreen_hwnds := insert h (fullscreen_hwnds a),
            selected_hwnd := Some (hwnd win_to_move),
            selected_list := Some fullscreen\<rparr>)"

definition move_window_to_windowed :: "App \<Rightarrow> hwnd \<Rightarrow> App" where
  \<comment> \<open>lines 427 to 443\<close>
  "move_window_to_windowed a h =
     (case pop_first h (fullscreen_windows a) of
        None \<Rightarrow> a
      | Some (win_to_move, rest) \<Rightarrow>
          a\<lparr>fullscreen_windows := rest,
            windowed_windows := windowed_windows a @ [win_to_move],
            fullscreen_hwnds := fullscreen_hwnds a - {h},
            selected_hwnd := Some (hwnd win_to_move),
            selected_list := Some windowed\<rparr>)"

definition context_make_borderless_on_monitor :: "App \<Rightarrow> rect option \<Rightarrow> App" where
  \<comment> \<open>lines 684 to 691; \<^verbatim>\<open>if self.selected_hwnd\<close> is false for \<^verbatim>\<open>None\<close> and 0\<close>
  "context_make_borderless_on_monitor a monitor_rect =
     (case selected_hwnd a of
        None \<Rightarrow> a
      | Some h \<Rightarrow>
          if h \<noteq> 0 \<and> selected_list a = Some windowed then
            (case set_borderless_fullscreen a h monitor_rect of
               (Returned, a1) \<Rightarrow> move_window_to_fullscreen a1 h
             | (Raised e, a1) \<Rightarrow> a1)
          else a)"

definition make_fullscreen :: "App \<Rightarrow> App" where
  \<comment> \<open>lines 392 to 399: the same with no monitor rectangle\<close>
  "make_fullscreen a = context_make_borderless_on_monitor a None"

definition revert_windowed :: "App \<Rightarrow> App" where
  \<comment> \<open>lines 401 to 408\<close>
  "revert_windowed a =
     (case selected_hwnd a of
        None \<Rightarrow> a
      | Some h \<Rightarrow>
          if h \<noteq> 0 \<and> selected_list a = Some fullscreen
          then move_window_to_windowed (revert_to_windowed a h) h
          else a)"

section \<open>\<^verbatim>\<open>update_windows_lists\<close>\<close>

text \<open>
  The reapplication loop returns, beside the state, the calls of
  \<^verbatim>\<open>set_borderless_fullscreen\<close> it made, in order, each with its arguments.
\<close>

type_synonym call = "hwnd \<times> rect option"

definition reapply_window :: "App \<Rightarrow> pid \<Rightarrow> WindowInfo \<Rightarrow> App \<times> call list" where
  \<comment> \<open>lines 489 to 499, for one window of one pid\<close>
  "reapply_window a p w =
     (case map_of (last_fullscreen_by_pid a) p of
        None \<Rightarrow> (a, [])
      | Some (expected_name, monitor_rect) \<Rightarrow>
          if expected_name \<noteq> [] \<and> expected_name = process_name w then
            if hwnd w \<notin> fullscreen_hwnds a \<and> window_style_cache a (hwnd w) = None then
              (case set_borderless_fullscreen a (hwnd w) monitor_rect of
                 (Returned, a1) \<Rightarrow>
                   (a1\<lparr>fullscreen_hwnds := insert (hwnd w) (fullscreen_hwnds a1)\<rparr>,
                    [(hwnd w, monitor_rect)])
               | (Raised e, a1) \<Rightarrow> (a1, [(hwnd w, monitor_rect)]))
            else (a, [])
          else (a, []))"

fun reapply_windows :: "App \<Rightarrow> pid \<Rightarrow> WindowInfo list \<Rightarrow> App \<times> call list" where
  "reapply_windows a p [] = (a, [])"
| "reapply_windows a p (w # ws) =
     (case reapply_window a p w of
        (a1, calls1) \<Rightarrow>
          (case reapply_windows a1 p ws of (a2, calls2) \<Rightarrow> (a2, calls1 @ calls2)))"

fun reapply_pids :: "App \<Rightarrow> pid list \<Rightarrow> WindowInfo list \<Rightarrow> App \<times> call list" where
  \<comment> \<open>lines 485 to 502; \<^verbatim>\<open>pid_to_windows[pid]\<close> is the windows of that pid, in order\<close>
  "reapply_pids a [] windows = (a, [])"
| "reapply_pids a (p # ps) windows =
     (case reapply_windows a p (filter (\<lambda>w. pid w = Some p) windows) of
        (a1, calls1) \<Rightarrow>
          (case reapply_pids a1 ps windows of (a2, calls2) \<Rightarrow> (a2, calls1 @ calls2)))"

definition auto_reapply :: "App \<Rightarrow> WindowInfo list \<Rightarrow> App \<times> call list" where
  "auto_reapply a windows = reapply_pids a (map fst (last_fullscreen_by_pid a)) windows"

definition is_tracked_fullscreen :: "App \<Rightarrow> WindowInfo \<Rightarrow> bool" where
  "is_tracked_fullscreen a w \<longleftrightarrow>
     hwnd w \<in> fullscreen_hwnds a \<and> window_style_cache a (hwnd w) \<noteq> None"

definition cleanup :: "App \<Rightarrow> hwnd set \<Rightarrow> App" where
  \<comment> \<open>lines 515 to 534\<close>
  "cleanup a new_hwnds =
     (let closed_hwnds = fullscreen_hwnds a - new_hwnds
      in a\<lparr>window_style_cache :=
              (\<lambda>h. if h \<in> closed_hwnds then None else window_style_cache a h),
            fullscreen_hwnds := fullscreen_hwnds a - closed_hwnds,
            last_fullscreen_by_pid :=
              filter (\<lambda>(p, v). pid_exists (os a) p) (last_fullscreen_by_pid a)\<rparr>)"

definition restore_selection ::
  "App \<Rightarrow> hwnd option \<Rightarrow> list_name option \<Rightarrow> App" where
  \<comment> \<open>lines 541 to 584\<close>
  "restore_selection a prev_selected_hwnd prev_selected_list =
     (case (prev_selected_hwnd, prev_selected_list) of
        (Some h, Some windowed) \<Rightarrow>
          if h \<in> set (map hwnd (windowed_windows a))
          then a\<lparr>selected_hwnd := Some h, selected_list := Some windowed\<rparr>
          else a\<lparr>selected_hwnd := None, selected_list := None\<rparr>
      | (Some h, Some fullscreen) \<Rightarrow>
          if h \<in> set (map hwnd (fullscreen_windows a))
          then a\<lparr>selected_hwnd := Some h, selected_list := Some fullscreen\<rparr>
          else a\<lparr>selected_hwnd := None, selected_list := None\<rparr>
      | _ \<Rightarrow> a\<lparr>selected_hwnd := None, selected_list := None\<rparr>)"

definition update_windows_lists :: "App \<Rightarrow> WindowInfo list \<Rightarrow> App" where
  "update_windows_lists a windows =
     (let a1 = fst (auto_reapply a windows);
          new_fullscreen = filter (is_tracked_fullscreen a1) windows;
          new_windowed = filter (\<lambda>w. \<not> is_tracked_fullscreen a1 w) windows;
          new_hwnds = set (map hwnd new_fullscreen);
          a2 = cleanup a1 new_hwnds;
          a3 = a2\<lparr>windowed_windows := new_windowed, fullscreen_windows := new_fullscreen\<rparr>
      in restore_selection a3 (selected_hwnd a) (selected_list a))"

section \<open>The timer\<close>

text \<open>What a function hands to the event loop: the coroutine that enumerates and then
  updates the lists, or itself again after a delay in milliseconds.\<close>

datatype scheduled = async_enum_windows | after nat

definition refresh_windows :: "App \<Rightarrow> scheduled list" where
  "refresh_windows a = [async_enum_windows]"

definition update_windows_periodically :: "App \<Rightarrow> scheduled list" where
  \<comment> \<open>lines 586 to 590\<close>
  "update_windows_periodically a =
     (if \<not> is_minimized a then refresh_windows a else [])
     @ [after (if \<not> is_minimized a then 3000 else 10000)]"

definition run_async_enum_windows :: "App \<Rightarrow> App" where
  \<comment> \<open>lines 457 to 459: what the coroutine does once it runs\<close>
  "run_async_enum_windows a =
     (case enum_windows (os a) of
        (windows, sys) \<Rightarrow> update_windows_lists (a\<lparr>os := sys\<rparr>) windows)"

section \<open>Predicates on window records and on the operating system\<close>

definition at_call :: "os \<Rightarrow> nat \<Rightarrow> os" where
  \<comment> \<open>the same operating system when so many calls have been made\<close>
  "at_call sys n = sys\<lparr>calls := n\<rparr>"

definition made_by_calls :: "os \<Rightarrow> nat \<Rightarrow> WindowInfo \<Rightarrow> bool" where
  \<comment> \<open>the record is what the callback and the constructor make of the answers to five
     consecutive calls, the first of them call number \<open>n\<close>: lines 91, 93, 64, 68
     and 70 to 71\<close>
  "made_by_calls sys n w \<longleftrightarrow>
     (\<exists>t p. os_read (at_call sys n) IsWindowVisible (hwnd w) w_visible = Inr True
        \<and> os_read (at_call sys (n + 1)) GetWindowText (hwnd w) w_title = Inr t
        \<and> t \<noteq> [] \<and> \<not> list_all is_whitespace t
        \<and> title w =
            (case os_read (at_call sys (n + 2)) GetWindowText (hwnd w) w_title of
               Inl e \<Rightarrow> []
             | Inr t' \<Rightarrow> t')
        \<and> os_read (at_call sys (n + 3)) GetWindowThreadProcessId (hwnd w) w_pid = Inr p
        \<and> pid w = Some p
        \<and> process_name_of sys (n + 4) p \<noteq> OtherFailure
        \<and> process_name w =
            (case process_name_of sys (n + 4) p of
               Name nm \<Rightarrow> if nm = [] then ''Unknown'' else nm
             | _ \<Rightarrow> ''Unknown''))"

definition enumerated :: "os \<Rightarrow> WindowInfo \<Rightarrow> bool" where
  "enumerated sys w \<longleftrightarrow> (\<exists>n. calls sys \<le> n \<and> made_by_calls sys n w)"

definition agrees_with_os :: "os \<Rightarrow> WindowInfo \<Rightarrow> bool" where
  \<comment> \<open>from now on, whenever \<^verbatim>\<open>set_borderless_fullscreen\<close> stores a process id and
     a name for the window's handle, they are those of the record\<close>
  "agrees_with_os sys w \<longleftrightarrow>
     (case wins sys (hwnd w) of
        None \<Rightarrow> True
      | Some win \<Rightarrow>
          w_pid win = 0 \<or>
          (pid w = Some (w_pid win) \<and>
           (\<forall>n. calls sys \<le> n \<longrightarrow>
              (case process_name_of sys n (w_pid win) of
                 Name nm \<Rightarrow> nm = process_name w
               | OtherFailure \<Rightarrow> True
               | _ \<Rightarrow> process_name w = ''Unknown''))))"

definition candidate :: "App \<Rightarrow> pid \<Rightarrow> WindowInfo \<Rightarrow> rect option \<Rightarrow> bool" where
  \<comment> \<open>the record belongs to the process, carries the stored name, and its handle is
     neither tracked nor cached\<close>
  "candidate a p w r \<longleftrightarrow>
     pid w = Some p
     \<and> map_of (last_fullscreen_by_pid a) p = Some (process_name w, r)
     \<and> hwnd w \<notin> fullscreen_hwnds a
     \<and> window_style_cache a (hwnd w) = None"


section \<open>Selection and example states\<close>

definition on_windowed_select :: "App \<Rightarrow> nat option \<Rightarrow> App" where
  \<comment> \<open>lines 342 to 365, given the first index of the listbox selection, if any\<close>
  "on_windowed_select a sel =
     (case sel of
        None \<Rightarrow> a\<lparr>selected_hwnd := None, selected_list := None\<rparr>
      | Some idx \<Rightarrow>
          if idx \<ge> length (windowed_windows a)
          then a\<lparr>selected_hwnd := None, selected_list := None\<rparr>
          else a\<lparr>selected_hwnd := Some (hwnd (windowed_windows a ! idx)),
                 selected_list := Some windowed\<rparr>)"

definition on_fullscreen_select :: "App \<Rightarrow> nat option \<Rightarrow> App" where
  \<comment> \<open>lines 367 to 390\<close>
  "on_fullscreen_select a sel =
     (case sel of
        None \<Rightarrow> a\<lparr>selected_hwnd := None, selected_list := None\<rparr>
      | Some idx \<Rightarrow>
          if idx \<ge> length (fullscreen_windows a)
          then a\<lparr>selected_hwnd := None, selected_list := None\<rparr>
          else a\<lparr>selected_hwnd := Some (hwnd (fullscreen_windows a ! idx)),
                 selected_list := Some fullscreen\<rparr>)"

text \<open>
  One overlapped window, handle 5, titled "A", of process 42 named \<^verbatim>\<open>App.exe\<close>, on a
  1920 by 1080 screen; and the application as \<^verbatim>\<open>App.__init__\<close> and the module leave
  it: nothing cached, nothing tracked, nothing selected.
\<close>

definition example_window :: window where
  "example_window =
     \<lparr>w_style = 0x14CF0000, w_exstyle = 0x00000100, w_rect = (100, 100, 900, 700),
      w_title = [65], w_visible = True, w_pid = 42\<rparr>"

definition example_os :: os where
  "example_os =
     \<lparr>wins = [5 \<mapsto> example_window],
      refuses = (\<lambda>n c h. False),
      calls = 0,
      toplevel = [5],
      enum_stops_after = None,
      process_name_of = (\<lambda>n p. if p = 42 then Name ''App.exe'' else NoSuchProcess),
      pid_exists = (\<lambda>p. p = 42),
      screen = (1920, 1080)\<rparr>"

definition initial_app :: App where
  "initial_app =
     \<lparr>os = example_os, window_style_cache = Map.empty, last_fullscreen_by_pid = [],
      windowed_windows = [], fullscreen_windows = [], fullscreen_hwnds = {},
      selected_hwnd = None, selected_list = None, is_minimized = False\<rparr>"

definition refusing :: "oscall \<Rightarrow> App \<Rightarrow> App" where
  \<comment> \<open>the same application on an operating system that from now on refuses one kind of
     call\<close>
  "refusing c a = a\<lparr>os := (os a)\<lparr>refuses := (\<lambda>n c' h. c' = c)\<rparr>\<rparr>"

definition refusing_from :: "nat \<Rightarrow> oscall \<Rightarrow> App \<Rightarrow> App" where
  \<comment> \<open>the same, when the refusals begin only with call number \<open>k\<close>\<close>
  "refusing_from k c a = a\<lparr>os := (os a)\<lparr>refuses := (\<lambda>n c' h. k \<le> n \<and> c' = c)\<rparr>\<rparr>"


definition app_listed :: App where
  \<comment> \<open>after the first refresh, with the first windowed entry selected\<close>
  "app_listed = on_windowed_select (run_async_enum_windows initial_app) (Some 0)"

definition app_in_fullscreen :: App where
  "app_in_fullscreen = make_fullscreen app_listed"

definition app_write_refused :: App where
  \<comment> \<open>the selected window, made fullscreen while the style write is refused\<close>
  "app_write_refused = make_fullscreen (refusing SetWindowLong_STYLE app_listed)"

definition app_reverted_only :: App where
  \<comment> \<open>the fullscreen window after \<^verbatim>\<open>revert_to_windowed\<close> alone\<close>
  "app_reverted_only = revert_to_windowed app_in_fullscreen 5"

text \<open>
  Process 42 with two windows, 5 and 6, and a preference left from an earlier window of
  the process; the operating system refuses the style write on window 5. The two records
  are what an enumeration makes of the two windows.
\<close>

definition two_window_os :: os where
  "two_window_os =
     example_os
       \<lparr>wins := [5 \<mapsto> example_window, 6 \<mapsto> example_window\<lparr>w_title := [66]\<rparr>],
        toplevel := [5, 6],
        refuses := (\<lambda>n c h. c = SetWindowLong_STYLE \<and> h = 5)\<rparr>"

definition record5 :: WindowInfo where
  "record5 = \<lparr>hwnd = 5, pid = Some 42, process_name = ''App.exe'', title = [65]\<rparr>"

definition record6 :: WindowInfo where
  "record6 = \<lparr>hwnd = 6, pid = Some 42, process_name = ''App.exe'', title = [66]\<rparr>"

definition app_relaunched :: App where
  "app_relaunched =
     initial_app\<lparr>os := two_window_os, last_fullscreen_by_pid := [(42, ''App.exe'', None)]\<rparr>"

definition app_name_denied :: App where
  \<comment> \<open>the same, when no call is refused and the name of process 42 is denied from call
     number 10 on, that is, once both windows have been enumerated\<close>
  "app_name_denied =
     app_relaunched
       \<lparr>os := two_window_os
          \<lparr>refuses := (\<lambda>n c h. False),
           process_name_of := (\<lambda>n p. if n < 10 then Name ''App.exe'' else AccessDenied)\<rparr>\<rparr>"


section \<open>Evaluation of the examples\<close>

lemmas example_defs = initial_app_def example_os_def example_window_def refusing_def
  refusing_from_def called_def
lemmas transform_defs = set_borderless_fullscreen_def
  cache_original_def read_snapshot_def os_read_def os_write_def store_pid_mapping_def
  strip_and_resize_def target_of_def set_window_pos_def Let_def
lemmas revert_defs = revert_to_windowed_def restore_window_def restore_styles_def
  restore_rect_def forget_pid_mapping_def os_read_def os_write_def set_window_pos_def Let_def
lemmas enum_defs = enum_windows_def callback_def get_process_info_def isspace_def
  is_whitespace_def os_read_def Let_def
lemmas update_defs = run_async_enum_windows_def update_windows_lists_def auto_reapply_def
  cleanup_def restore_selection_def is_tracked_fullscreen_def reapply_window_def Let_def
lemmas ui_defs = on_windowed_select_def on_fullscreen_select_def make_fullscreen_def
  context_make_borderless_on_monitor_def move_window_to_fullscreen_def
  move_window_to_windowed_def revert_windowed_def

lemma run_async_enum_windows_eq:
  "run_async_enum_windows a
     = update_windows_lists (a\<lparr>os := snd (enum_windows (os a))\<rparr>) (fst (enum_windows (os a)))"
  by (simp add: run_async_enum_windows_def split: prod.splits)

lemma enum_windows_example:
  "enum_windows example_os
     = ([\<lparr>hwnd = 5, pid = Some 42, process_name = ''App.exe'', title = [65]\<rparr>],
        example_os\<lparr>calls := 5\<rparr>)"
  by (simp add: enum_defs example_defs)

lemma app_listed_eq:
  "app_listed = initial_app
     \<lparr>os := example_os\<lparr>calls := 5\<rparr>,
      windowed_windows := [\<lparr>hwnd = 5, pid = Some 42, process_name = ''App.exe'', title = [65]\<rparr>],
      selected_hwnd := Some 5, selected_list := Some windowed\<rparr>"
proof -
  have "os initial_app = example_os" by (simp add: initial_app_def)
  then have "run_async_enum_windows initial_app = initial_app
     \<lparr>os := example_os\<lparr>calls := 5\<rparr>,
      windowed_windows := [\<lparr>hwnd = 5, pid = Some 42, process_name = ''App.exe'', title = [65]\<rparr>]\<rparr>"
    by (simp add: update_defs enum_windows_example)
       (simp add: initial_app_def is_tracked_fullscreen_def)
  then show ?thesis
    by (simp add: app_listed_def on_windowed_select_def)
qed

lemma app_in_fullscreen_fields:
  "fullscreen_hwnds app_in_fullscreen = {5}"
  "window_style_cache app_in_fullscreen 5 = Some (0x14CF0000, 0x00000100, (100, 100, 900, 700))"
  "selected_hwnd app_in_fullscreen = Some 5"
  "selected_list app_in_fullscreen = Some fullscreen"
  "fullscreen_windows app_in_fullscreen
     = [\<lparr>hwnd = 5, pid = Some 42, process_name = ''App.exe'', title = [65]\<rparr>]"
  "windowed_windows app_in_fullscreen = []"
  "last_fullscreen_by_pid app_in_fullscreen = [(42, ''App.exe'', None)]"
  "calls (os app_in_fullscreen) = 15"
  "wins (os app_in_fullscreen) 5
     = Some (example_window\<lparr>w_style := 0x14000000, w_rect := (0, 0, 1920, 1080)\<rparr>)"
  "refuses (os app_in_fullscreen) = (\<lambda>n c h. False)"
  by (simp_all add: app_in_fullscreen_def app_listed_eq ui_defs example_defs transform_defs
        chrome_style_def chrome_exstyle_def WS_CAPTION_def WS_BORDER_def WS_DLGFRAME_def
        WS_SYSMENU_def WS_THICKFRAME_def WS_MINIMIZEBOX_def WS_MAXIMIZEBOX_def
        WS_EX_DLGMODALFRAME_def WS_EX_CLIENTEDGE_def WS_EX_STATICEDGE_def)

lemma app_reverted_only_fields:
  "fullscreen_hwnds app_reverted_only = {5}"
  "window_style_cache app_reverted_only 5 = None"
  "fst (enum_windows (os app_reverted_only))
     = [\<lparr>hwnd = 5, pid = Some 42, process_name = ''App.exe'', title = [65]\<rparr>]"
  by (simp_all add: app_reverted_only_def app_in_fullscreen_def app_listed_eq ui_defs
        example_defs transform_defs revert_defs enum_defs)

lemma app_write_refused_fields:
  "fullscreen_hwnds app_write_refused = {}"
  "window_style_cache app_write_refused 5 = Some (0x14CF0000, 0x00000100, (100, 100, 900, 700))"
  "fst (enum_windows (os app_write_refused))
     = [\<lparr>hwnd = 5, pid = Some 42, process_name = ''App.exe'', title = [65]\<rparr>]"
  by (simp_all add: app_write_refused_def app_listed_eq ui_defs example_defs transform_defs enum_defs)

lemma pass_after_refused_write:
  "window_style_cache (run_async_enum_windows app_write_refused) 5
     = Some (0x14CF0000, 0x00000100, (100, 100, 900, 700))"
  "fullscreen_hwnds (run_async_enum_windows app_write_refused) = {}"
  by (simp_all add: app_write_refused_def app_listed_eq ui_defs example_defs transform_defs
        enum_defs update_defs)

lemma pass_in_fullscreen:
  "fullscreen_hwnds (run_async_enum_windows app_in_fullscreen) = {5}"
  "window_style_cache (run_async_enum_windows app_in_fullscreen) 5
     = Some (0x14CF0000, 0x00000100, (100, 100, 900, 700))"
  by (simp_all add: app_in_fullscreen_def app_listed_eq ui_defs example_defs transform_defs
        enum_defs update_defs)

lemmas two_window_defs = app_relaunched_def app_name_denied_def two_window_os_def
  record5_def record6_def

lemma enum_windows_two:
  "enum_windows (os app_relaunched) = ([record5, record6], (os app_relaunched)\<lparr>calls := 10\<rparr>)"
  "enum_windows (os app_name_denied) = ([record5, record6], (os app_name_denied)\<lparr>calls := 10\<rparr>)"
  by (simp_all add: two_window_defs enum_defs example_defs)

section \<open>The chrome masks\<close>

lemma bit_pow2_int: "bit (2 ^ m :: int) n \<longleftrightarrow> n = m"
  by (simp add: bit_exp_iff)

lemma WS_pow2:
  "WS_BORDER = 2 ^ 23" "WS_DLGFRAME = 2 ^ 22" "WS_SYSMENU = 2 ^ 19"
  "WS_THICKFRAME = 2 ^ 18" "WS_MINIMIZEBOX = 2 ^ 17" "WS_MAXIMIZEBOX = 2 ^ 16"
  "WS_EX_DLGMODALFRAME = 2 ^ 0" "WS_EX_CLIENTEDGE = 2 ^ 9" "WS_EX_STATICEDGE = 2 ^ 17"
  by (simp_all add: WS_BORDER_def WS_DLGFRAME_def WS_SYSMENU_def
        WS_THICKFRAME_def WS_MINIMIZEBOX_def WS_MAXIMIZEBOX_def
        WS_EX_DLGMODALFRAME_def WS_EX_CLIENTEDGE_def WS_EX_STATICEDGE_def)

lemma bit_WS [simp]:
  "bit WS_BORDER n \<longleftrightarrow> n = 23"
  "bit WS_DLGFRAME n \<longleftrightarrow> n = 22"
  "bit WS_SYSMENU n \<longleftrightarrow> n = 19"
  "bit WS_THICKFRAME n \<longleftrightarrow> n = 18"
  "bit WS_MINIMIZEBOX n \<longleftrightarrow> n = 17"
  "bit WS_MAXIMIZEBOX n \<longleftrightarrow> n = 16"
  "bit WS_EX_DLGMODALFRAME n \<longleftrightarrow> n = 0"
  "bit WS_EX_CLIENTEDGE n \<longleftrightarrow> n = 9"
  "bit WS_EX_STATICEDGE n \<longleftrightarrow> n = 17"
  unfolding WS_pow2 by (rule bit_pow2_int)+

lemma bits_chrome_style: "bit chrome_style n \<longleftrightarrow> n \<in> {16, 17, 18, 19, 22, 23}"
  by (auto simp: chrome_style_def WS_CAPTION_def bit_or_iff)

lemma bits_chrome_exstyle: "bit chrome_exstyle n \<longleftrightarrow> n \<in> {0, 9, 17}"
  by (auto simp: chrome_exstyle_def bit_or_iff)

lemma chrome_values: "chrome_style = 0x00CF0000" "chrome_exstyle = 0x00020201"
  by (simp_all add: chrome_style_def chrome_exstyle_def WS_CAPTION_def WS_BORDER_def WS_DLGFRAME_def WS_SYSMENU_def
        WS_THICKFRAME_def WS_MINIMIZEBOX_def WS_MAXIMIZEBOX_def WS_EX_DLGMODALFRAME_def WS_EX_CLIENTEDGE_def WS_EX_STATICEDGE_def)

section \<open>What each step of the transform touches\<close>

text \<open>A step leaves a record as it was but for the fields named: setting these back
  gives the record before the step.\<close>

lemma read_snapshot_os:
  "(snd (read_snapshot sys h))\<lparr>calls := calls sys\<rparr> = sys"
  by (auto simp: read_snapshot_def called_def Let_def split: sum.splits)


lemma read_snapshot_Inl:
  "fst (read_snapshot sys h) = Inl e \<Longrightarrow>
     \<exists>c. e = OSError c h
        \<and> (c = GetWindowLong_STYLE \<or> c = GetWindowLong_EXSTYLE \<or> c = GetWindowRect)"
  by (auto simp: read_snapshot_def os_read_def Let_def
           split: sum.splits option.splits if_splits)

lemma read_snapshot_Inr:
  "fst (read_snapshot sys h) = Inr snap \<Longrightarrow>
     \<exists>w. wins sys h = Some w \<and> snap = (w_style w, w_exstyle w, w_rect w)"
  by (auto simp: read_snapshot_def os_read_def called_def Let_def
           split: sum.splits option.splits if_splits)

lemma cache_original_Raised:
  "cache_original s h = (Raised e, s1) \<Longrightarrow>
     window_style_cache s h = None \<and> fst (read_snapshot (os s) h) = Inl e
     \<and> s1 = s\<lparr>os := snd (read_snapshot (os s) h)\<rparr>"
  by (auto simp: cache_original_def split: if_splits sum.splits prod.splits)

lemma cache_original_Returned:
  "cache_original s h = (Returned, s1) \<Longrightarrow>
     (window_style_cache s h \<noteq> None \<longrightarrow> s1 = s)
     \<and> (window_style_cache s h = None \<longrightarrow>
          (\<exists>snap. fst (read_snapshot (os s) h) = Inr snap
             \<and> s1 = s\<lparr>os := snd (read_snapshot (os s) h),
                      window_style_cache := (window_style_cache s)(h \<mapsto> snap)\<rparr>))"
  by (auto simp: cache_original_def split: if_splits sum.splits prod.splits)

lemma cache_original_frame:
  assumes "cache_original s h = (r, s1)"
  shows "(os s1)\<lparr>calls := calls (os s)\<rparr> = os s"
    and "s1\<lparr>os := os s, window_style_cache := window_style_cache s\<rparr> = s"
  using assms read_snapshot_os [of "os s" h]
  by (auto simp: cache_original_def split: if_splits sum.splits prod.splits)

lemma store_pid_mapping_frame:
  assumes "store_pid_mapping s h m = (r, s2)"
  shows "(os s2)\<lparr>calls := calls (os s)\<rparr> = os s"
    and "s2\<lparr>os := os s, last_fullscreen_by_pid := last_fullscreen_by_pid s\<rparr> = s"
  using assms
  by (auto simp: store_pid_mapping_def called_def Let_def
           split: if_splits sum.splits psutil_name.splits)

lemma store_pid_mapping_Raised:
  "store_pid_mapping s h m = (Raised e, s2) \<Longrightarrow>
     (\<exists>p. e = PsutilError p) \<and> last_fullscreen_by_pid s2 = last_fullscreen_by_pid s"
  by (auto simp: store_pid_mapping_def Let_def split: sum.splits if_splits psutil_name.splits)


lemma strip_and_resize_frame:
  "strip_and_resize sys h m = (r, sys') \<Longrightarrow>
     sys'\<lparr>wins := wins sys, calls := calls sys\<rparr> = sys"
  by (auto simp: strip_and_resize_def os_read_def os_write_def set_window_pos_def called_def
                 Let_def
           split: if_splits sum.splits option.splits prod.splits)


lemma strip_and_resize_Returned:
  assumes "strip_and_resize sys h m = (Returned, sys')" and "wins sys h = Some w"
  shows "wins sys' = (wins sys)(h \<mapsto>
            w\<lparr>w_style := w_style w AND NOT chrome_style,
              w_exstyle := w_exstyle w AND NOT chrome_exstyle,
              w_rect := (case target_of sys m of (l, t, wd, ht) \<Rightarrow> (l, t, l + wd, t + ht)),
              w_visible := True\<rparr>)"
  using assms
  by (auto simp: strip_and_resize_def os_read_def os_write_def set_window_pos_def target_of_def
                 called_def Let_def
           split: if_splits sum.splits option.splits prod.splits)


lemma strip_and_resize_wins:
  assumes "strip_and_resize sys h m = (r, sys')"
  shows "(\<forall>h'. h' \<noteq> h \<longrightarrow> wins sys' h' = wins sys h')
       \<and> (wins sys' h = None \<longleftrightarrow> wins sys h = None)
       \<and> map_option w_pid (wins sys' h) = map_option w_pid (wins sys h)"
  using assms
  by (auto simp: strip_and_resize_def os_read_def os_write_def set_window_pos_def called_def
                 Let_def
           split: sum.splits prod.splits if_splits option.splits)

lemma set_borderless_fullscreen_cases:
  assumes "set_borderless_fullscreen s h m = (r, s')"
  obtains (read_failed) e where "cache_original s h = (Raised e, s')" "r = Raised e"
  | (psutil_failed) s1 e where "cache_original s h = (Returned, s1)"
      "store_pid_mapping s1 h m = (Raised e, s')" "r = Raised e"
  | (stripped) s1 s2 sys' where "cache_original s h = (Returned, s1)"
      "store_pid_mapping s1 h m = (Returned, s2)" "strip_and_resize (os s2) h m = (r, sys')"
      "s' = s2\<lparr>os := sys'\<rparr>"
  using assms
  by (auto simp: set_borderless_fullscreen_def split: outcome.splits prod.splits)

lemma cache_original_frameE:
  assumes "cache_original s h = (r, s1)"
  obtains k c where "s1 = s\<lparr>os := (os s)\<lparr>calls := k\<rparr>, window_style_cache := c\<rparr>"
proof -
  note f = cache_original_frame [OF assms]
  have "s\<lparr>os := (os s)\<lparr>calls := calls (os s1)\<rparr>, window_style_cache := window_style_cache s1\<rparr>
      = (s1\<lparr>os := os s, window_style_cache := window_style_cache s\<rparr>)
          \<lparr>os := ((os s1)\<lparr>calls := calls (os s)\<rparr>)\<lparr>calls := calls (os s1)\<rparr>,
           window_style_cache := window_style_cache s1\<rparr>"
    by (simp only: f)
  also have "\<dots> = s1" by simp
  finally show ?thesis using that by metis
qed

lemma store_pid_mapping_frameE:
  assumes "store_pid_mapping s h m = (r, s2)"
  obtains k v where "s2 = s\<lparr>os := (os s)\<lparr>calls := k\<rparr>, last_fullscreen_by_pid := v\<rparr>"
proof -
  note f = store_pid_mapping_frame [OF assms]
  have "s\<lparr>os := (os s)\<lparr>calls := calls (os s2)\<rparr>,
          last_fullscreen_by_pid := last_fullscreen_by_pid s2\<rparr>
      = (s2\<lparr>os := os s, last_fullscreen_by_pid := last_fullscreen_by_pid s\<rparr>)
          \<lparr>os := ((os s2)\<lparr>calls := calls (os s)\<rparr>)\<lparr>calls := calls (os s2)\<rparr>,
           last_fullscreen_by_pid := last_fullscreen_by_pid s2\<rparr>"
    by (simp only: f)
  also have "\<dots> = s2" by simp
  finally show ?thesis using that by metis
qed

lemma strip_and_resize_frameE:
  assumes "strip_and_resize sys h m = (r, sys')"
  obtains ws k where "sys' = sys\<lparr>wins := ws, calls := k\<rparr>"
proof -
  note f = strip_and_resize_frame [OF assms]
  have "sys\<lparr>wins := wins sys', calls := calls sys'\<rparr>
      = (sys'\<lparr>wins := wins sys, calls := calls sys\<rparr>)\<lparr>wins := wins sys', calls := calls sys'\<rparr>"
    by (simp only: f)
  also have "\<dots> = sys'" by simp
  finally show ?thesis using that by metis
qed

lemma set_borderless_fullscreen_frame:
  assumes "set_borderless_fullscreen s h m = (r, s')"
  obtains ws k c v where
    "s' = s\<lparr>os := (os s)\<lparr>wins := ws, calls := k\<rparr>, window_style_cache := c,
             last_fullscreen_by_pid := v\<rparr>"
  using assms
proof (cases rule: set_borderless_fullscreen_cases)
  case (read_failed e)
  from read_failed(1) obtain k c where
    "s' = s\<lparr>os := (os s)\<lparr>calls := k\<rparr>, window_style_cache := c\<rparr>"
    by (rule cache_original_frameE)
  then have "s' = s\<lparr>os := (os s)\<lparr>wins := wins (os s), calls := k\<rparr>, window_style_cache := c,
             last_fullscreen_by_pid := last_fullscreen_by_pid s\<rparr>"
    by simp
  then show ?thesis by (rule that)
next
  case (psutil_failed s1 e)
  from psutil_failed(1) obtain k c where
    s1: "s1 = s\<lparr>os := (os s)\<lparr>calls := k\<rparr>, window_style_cache := c\<rparr>"
    by (rule cache_original_frameE)
  from psutil_failed(2) obtain k' v where
    "s' = s1\<lparr>os := (os s1)\<lparr>calls := k'\<rparr>, last_fullscreen_by_pid := v\<rparr>"
    by (rule store_pid_mapping_frameE)
  with s1 have "s' = s\<lparr>os := (os s)\<lparr>wins := wins (os s), calls := k'\<rparr>,
             window_style_cache := c, last_fullscreen_by_pid := v\<rparr>"
    by simp
  then show ?thesis by (rule that)
next
  case (stripped s1 s2 sys')
  from stripped(1) obtain k c where
    s1: "s1 = s\<lparr>os := (os s)\<lparr>calls := k\<rparr>, window_style_cache := c\<rparr>"
    by (rule cache_original_frameE)
  from stripped(2) obtain k' v where
    s2: "s2 = s1\<lparr>os := (os s1)\<lparr>calls := k'\<rparr>, last_fullscreen_by_pid := v\<rparr>"
    by (rule store_pid_mapping_frameE)
  from stripped(3) obtain ws k'' where
    "sys' = (os s2)\<lparr>wins := ws, calls := k''\<rparr>"
    by (rule strip_and_resize_frameE)
  with s1 s2 stripped(4) have "s' = s\<lparr>os := (os s)\<lparr>wins := ws, calls := k''\<rparr>,
             window_style_cache := c, last_fullscreen_by_pid := v\<rparr>"
    by simp
  then show ?thesis by (rule that)
qed

lemma set_borderless_fullscreen_fullscreen_hwnds:
  fixes a :: App
  assumes "set_borderless_fullscreen a h m = (r, a')"
  shows "fullscreen_hwnds a' = fullscreen_hwnds a"
  using assms by (rule set_borderless_fullscreen_frame) simp

text \<open>The transform writes to the one window only, and only once every read has been
  answered; it never makes a handle denote a window or stop denoting one.\<close>

lemma cache_original_cache:
  "cache_original s h = (Returned, s1) \<Longrightarrow>
     (window_style_cache s h \<noteq> None \<longrightarrow> window_style_cache s1 = window_style_cache s)
     \<and> (window_style_cache s h = None \<longrightarrow>
          (\<exists>snap. fst (read_snapshot (os s) h) = Inr snap
             \<and> window_style_cache s1 = (window_style_cache s)(h \<mapsto> snap)))"
  by (auto simp: cache_original_def split: if_splits sum.splits prod.splits)

lemma target_of_calls [simp]:
  "target_of (sys\<lparr>calls := k\<rparr>) m = target_of sys m"
  by (simp add: target_of_def split: option.splits)

lemma strip_and_resize_Returned_window:
  "strip_and_resize sys h m = (Returned, sys') \<Longrightarrow> wins sys h \<noteq> None"
  by (auto simp: strip_and_resize_def os_read_def Let_def split: sum.splits option.splits)

lemma set_borderless_fullscreen_wins:
  assumes "set_borderless_fullscreen s h m = (r, s')"
  shows "(\<forall>h'. h' \<noteq> h \<longrightarrow> wins (os s') h' = wins (os s) h')
       \<and> (wins (os s') h = None \<longleftrightarrow> wins (os s) h = None)
       \<and> map_option w_pid (wins (os s') h) = map_option w_pid (wins (os s) h)
       \<and> refuses (os s') = refuses (os s)
       \<and> process_name_of (os s') = process_name_of (os s)"
  using assms
proof (cases rule: set_borderless_fullscreen_cases)
  case (read_failed e)
  from read_failed(1) obtain k c where
    "s' = s\<lparr>os := (os s)\<lparr>calls := k\<rparr>, window_style_cache := c\<rparr>"
    by (rule cache_original_frameE)
  then show ?thesis by simp
next
  case (psutil_failed s1 e)
  from psutil_failed(1) obtain k c where
    s1: "s1 = s\<lparr>os := (os s)\<lparr>calls := k\<rparr>, window_style_cache := c\<rparr>"
    by (rule cache_original_frameE)
  from psutil_failed(2) obtain k' v where
    "s' = s1\<lparr>os := (os s1)\<lparr>calls := k'\<rparr>, last_fullscreen_by_pid := v\<rparr>"
    by (rule store_pid_mapping_frameE)
  with s1 show ?thesis by simp
next
  case (stripped s1 s2 sys')
  from stripped(1) obtain k c where
    s1: "s1 = s\<lparr>os := (os s)\<lparr>calls := k\<rparr>, window_style_cache := c\<rparr>"
    by (rule cache_original_frameE)
  from stripped(2) obtain k' v where
    s2: "s2 = s1\<lparr>os := (os s1)\<lparr>calls := k'\<rparr>, last_fullscreen_by_pid := v\<rparr>"
    by (rule store_pid_mapping_frameE)
  from stripped(3) obtain ws k'' where
    sys': "sys' = (os s2)\<lparr>wins := ws, calls := k''\<rparr>"
    by (rule strip_and_resize_frameE)
  have w2: "wins (os s2) = wins (os s)"
    using s1 s2 by simp
  from strip_and_resize_wins [OF stripped(3)] w2 stripped(4)
  have "(\<forall>h'. h' \<noteq> h \<longrightarrow> wins (os s') h' = wins (os s) h')
       \<and> (wins (os s') h = None \<longleftrightarrow> wins (os s) h = None)
       \<and> map_option w_pid (wins (os s') h) = map_option w_pid (wins (os s) h)"
    by simp
  moreover have "refuses (os s') = refuses (os s) \<and> process_name_of (os s') = process_name_of (os s)"
    using s1 s2 sys' stripped(4) by simp
  ultimately show ?thesis by simp
qed

text \<open>What the transform does to the cache: nothing for a cached handle; for a handle
  that is not cached, either the snapshot read fails, and then nothing but the number
  of calls has changed, or the snapshot is stored, whatever happens afterwards.\<close>

lemma set_borderless_fullscreen_cache:
  assumes "set_borderless_fullscreen s h m = (r, s')"
  shows "(window_style_cache s h \<noteq> None \<longrightarrow> window_style_cache s' = window_style_cache s)
       \<and> (window_style_cache s h = None \<longrightarrow>
            (\<exists>e. fst (read_snapshot (os s) h) = Inl e \<and> r = Raised e
                 \<and> s' = s\<lparr>os := snd (read_snapshot (os s) h)\<rparr>)
          \<or> (\<exists>snap. fst (read_snapshot (os s) h) = Inr snap
                 \<and> window_style_cache s' = (window_style_cache s)(h \<mapsto> snap)))"
  using assms
proof (cases rule: set_borderless_fullscreen_cases)
  case (read_failed e)
  from cache_original_Raised [OF read_failed(1)] read_failed(2) show ?thesis by simp
next
  case (psutil_failed s1 e)
  from psutil_failed(2) obtain k' v where
    "s' = s1\<lparr>os := (os s1)\<lparr>calls := k'\<rparr>, last_fullscreen_by_pid := v\<rparr>"
    by (rule store_pid_mapping_frameE)
  then have "window_style_cache s' = window_style_cache s1" by simp
  with cache_original_cache [OF psutil_failed(1)] show ?thesis by simp
next
  case (stripped s1 s2 sys')
  from stripped(2) obtain k' v where
    "s2 = s1\<lparr>os := (os s1)\<lparr>calls := k'\<rparr>, last_fullscreen_by_pid := v\<rparr>"
    by (rule store_pid_mapping_frameE)
  with stripped(4) have "window_style_cache s' = window_style_cache s1" by simp
  with cache_original_cache [OF stripped(1)] show ?thesis by simp
qed

lemma set_borderless_fullscreen_cache_other:
  assumes "set_borderless_fullscreen s h m = (r, s')" and "h' \<noteq> h"
  shows "window_style_cache s' h' = window_style_cache s h'"
proof (cases "window_style_cache s h = None")
  case True
  with set_borderless_fullscreen_cache [OF assms(1)] assms(2) show ?thesis by auto
next
  case False
  with set_borderless_fullscreen_cache [OF assms(1)] show ?thesis by simp
qed

text \<open>When the transform returns, the window has been read as it was before the call.\<close>

lemma set_borderless_fullscreen_Returned:
  assumes "set_borderless_fullscreen s h monitor_rect = (Returned, s')"
  shows "\<exists>w. wins (os s) h = Some w
    \<and> wins (os s') = (wins (os s))(h \<mapsto>
            w\<lparr>w_style := w_style w AND NOT chrome_style,
              w_exstyle := w_exstyle w AND NOT chrome_exstyle,
              w_rect := (case target_of (os s) monitor_rect of (l, t, wd, ht) \<Rightarrow> (l, t, l + wd, t + ht)),
              w_visible := True\<rparr>)"
  using assms
proof (cases rule: set_borderless_fullscreen_cases)
  case (stripped s1 s2 sys')
  from stripped(1) obtain k c where
    s1: "s1 = s\<lparr>os := (os s)\<lparr>calls := k\<rparr>, window_style_cache := c\<rparr>"
    by (rule cache_original_frameE)
  from stripped(2) obtain k' v where
    s2: "s2 = s1\<lparr>os := (os s1)\<lparr>calls := k'\<rparr>, last_fullscreen_by_pid := v\<rparr>"
    by (rule store_pid_mapping_frameE)
  have os2: "os s2 = (os s)\<lparr>calls := k'\<rparr>"
    using s1 s2 by simp
  from set_borderless_fullscreen_wins [OF assms] obtain w where w: "wins (os s) h = Some w"
    using strip_and_resize_Returned_window [OF stripped(3)] os2 by auto
  then have "wins (os s2) h = Some w" using os2 by simp
  from strip_and_resize_Returned [OF stripped(3) this] os2 stripped(4) w
  show ?thesis by simp
qed simp_all

section \<open>The chrome bits\<close>

text \<open>
  Claim C7. When \<^verbatim>\<open>set_borderless_fullscreen\<close> returns, the style it wrote is the
  style the window had with the bits of \<^verbatim>\<open>WS_CAPTION\<close> (22 and 23),
  \<^verbatim>\<open>WS_THICKFRAME\<close> (18), \<^verbatim>\<open>WS_MINIMIZEBOX\<close> (17), \<^verbatim>\<open>WS_MAXIMIZEBOX\<close> (16)
  and \<^verbatim>\<open>WS_SYSMENU\<close> (19) cleared, and the extended style it wrote is the one the
  window had with the bits of \<^verbatim>\<open>WS_EX_DLGMODALFRAME\<close> (0), \<^verbatim>\<open>WS_EX_CLIENTEDGE\<close> (9)
  and \<^verbatim>\<open>WS_EX_STATICEDGE\<close> (17) cleared; every other bit is as it was, for every
  style and extended style.
\<close>

theorem transform_clears_exactly_chrome_bits:
  assumes "set_borderless_fullscreen s h monitor_rect = (Returned, s')"
    and "wins (os s) h = Some w"
  shows "\<exists>w'. wins (os s') h = Some w'
     \<and> w_style w' = w_style w AND NOT chrome_style
     \<and> w_exstyle w' = w_exstyle w AND NOT chrome_exstyle
     \<and> chrome_style = 0x00CF0000 \<and> chrome_exstyle = 0x00020201
     \<and> (\<forall>n. bit (w_style w') n \<longleftrightarrow> bit (w_style w) n \<and> n \<notin> {16, 17, 18, 19, 22, 23})
     \<and> (\<forall>n. bit (w_exstyle w') n \<longleftrightarrow> bit (w_exstyle w) n \<and> n \<notin> {0, 9, 17})"
proof -
  from set_borderless_fullscreen_Returned [OF assms(1)] assms(2)
  have "wins (os s') h = Some
      (w\<lparr>w_style := w_style w AND NOT chrome_style,
         w_exstyle := w_exstyle w AND NOT chrome_exstyle,
         w_rect := (case target_of (os s) monitor_rect of (l, t, wd, ht) \<Rightarrow> (l, t, l + wd, t + ht)),
         w_visible := True\<rparr>)"
    by auto
  then have "\<exists>w'. wins (os s') h = Some w'
     \<and> w_style w' = w_style w AND NOT chrome_style
     \<and> w_exstyle w' = w_exstyle w AND NOT chrome_exstyle"
    by simp
  then show ?thesis
    by (auto simp: bit_and_iff bit_not_iff bits_chrome_style bits_chrome_exstyle
             simp del: insert_iff intro: chrome_values)
qed

theorem transform_clears_exactly_chrome_bits_witness:
  "set_borderless_fullscreen initial_app 5 None
     = (Returned, snd (set_borderless_fullscreen initial_app 5 None))
   \<and> wins (os initial_app) 5 = Some example_window
   \<and> (\<exists>w'. wins (os (snd (set_borderless_fullscreen initial_app 5 None))) 5 = Some w'
        \<and> w_style w' = 0x14000000 \<and> w_exstyle w' = 0x00000100)"
proof -
  have r: "set_borderless_fullscreen initial_app 5 None
     = (Returned, snd (set_borderless_fullscreen initial_app 5 None))"
    by (simp add: example_defs transform_defs)
  have w: "wins (os initial_app) 5 = Some example_window"
    by (simp add: initial_app_def example_os_def)
  have "w_style example_window AND NOT chrome_style = 0x14000000"
       "w_exstyle example_window AND NOT chrome_exstyle = 0x00000100"
    by (simp_all add: example_window_def chrome_values)
  then show ?thesis
    using r w transform_clears_exactly_chrome_bits [OF r w] by auto
qed

section \<open>Transform, then revert\<close>






section \<open>A transform that raises\<close>




text \<open>
  Claim C4, as amended. When \<^verbatim>\<open>set_borderless_fullscreen\<close> raises at one of the
  two style writes, for a handle whose snapshot this call has taken, the set of
  fullscreen handles is as before the call and the cache holds, for the handle, the
  snapshot of the style, extended style and rectangle the window had before the call:
  nothing is rolled back. \<^verbatim>\<open>make_fullscreen\<close> and its variant with a monitor
  rectangle return that same state, so the handle does not become a member there either.
\<close>

theorem style_write_failure_keeps_snapshot:
  fixes a :: App
  assumes "set_borderless_fullscreen a h monitor_rect = (Raised (OSError c h'), a')"
    and "c = SetWindowLong_STYLE \<or> c = SetWindowLong_EXSTYLE"
    and "window_style_cache a h = None"
  shows "fullscreen_hwnds a' = fullscreen_hwnds a
     \<and> (\<exists>w. wins (os a) h = Some w
           \<and> window_style_cache a' = (window_style_cache a)(h \<mapsto> (w_style w, w_exstyle w, w_rect w)))
     \<and> (selected_hwnd a = Some h \<and> h \<noteq> 0 \<and> selected_list a = Some windowed \<longrightarrow>
          context_make_borderless_on_monitor a monitor_rect = a')"
proof -
  have fs: "fullscreen_hwnds a' = fullscreen_hwnds a"
    using assms(1) by (rule set_borderless_fullscreen_fullscreen_hwnds)
  have "\<not> (\<exists>e. fst (read_snapshot (os a) h) = Inl e \<and> Raised (OSError c h') = Raised e)"
    using assms(2) by (auto dest: read_snapshot_Inl)
  with set_borderless_fullscreen_cache [OF assms(1)] assms(3)
  obtain snap where snap: "fst (read_snapshot (os a) h) = Inr snap"
    "window_style_cache a' = (window_style_cache a)(h \<mapsto> snap)"
    by auto
  from read_snapshot_Inr [OF snap(1)] snap(2)
  have "\<exists>w. wins (os a) h = Some w
           \<and> window_style_cache a' = (window_style_cache a)(h \<mapsto> (w_style w, w_exstyle w, w_rect w))"
    by auto
  with fs assms(1) show ?thesis
    by (simp add: context_make_borderless_on_monitor_def)
qed

theorem style_write_failure_keeps_snapshot_witness:
  "set_borderless_fullscreen (refusing SetWindowLong_EXSTYLE app_listed) 5 None
     = (Raised (OSError SetWindowLong_EXSTYLE 5),
        snd (set_borderless_fullscreen (refusing SetWindowLong_EXSTYLE app_listed) 5 None))
   \<and> window_style_cache (refusing SetWindowLong_EXSTYLE app_listed) 5 = None
   \<and> selected_hwnd (refusing SetWindowLong_EXSTYLE app_listed) = Some 5
   \<and> selected_list (refusing SetWindowLong_EXSTYLE app_listed) = Some windowed
   \<and> fullscreen_hwnds (make_fullscreen (refusing SetWindowLong_EXSTYLE app_listed)) = {}
   \<and> window_style_cache (make_fullscreen (refusing SetWindowLong_EXSTYLE app_listed)) 5
       = Some (0x14CF0000, 0x00000100, (100, 100, 900, 700))"
proof -
  let ?a = "refusing SetWindowLong_EXSTYLE app_listed"
  have r: "set_borderless_fullscreen ?a 5 None
     = (Raised (OSError SetWindowLong_EXSTYLE 5), snd (set_borderless_fullscreen ?a 5 None))"
    by (simp add: app_listed_eq example_defs transform_defs)
  have c: "window_style_cache ?a 5 = None"
    by (simp add: app_listed_eq example_defs)
  have sel: "selected_hwnd ?a = Some 5" "selected_list ?a = Some windowed"
    by (simp_all add: app_listed_eq example_defs)
  have fs: "fullscreen_hwnds ?a = {}"
    by (simp add: app_listed_eq example_defs)
  have w: "wins (os ?a) 5 = Some example_window"
    by (simp add: app_listed_eq example_defs)
  from style_write_failure_keeps_snapshot [OF r _ c] sel fs w
  have "fullscreen_hwnds (make_fullscreen ?a) = {}
      \<and> window_style_cache (make_fullscreen ?a) 5
          = Some (w_style example_window, w_exstyle example_window, w_rect example_window)"
    by (auto simp: make_fullscreen_def)
  with r c sel show ?thesis
    by (simp add: example_window_def)
qed

text \<open>
  The claim as stated fails in its second half: after the refused style write the cache
  holds the snapshot of window 5.
\<close>

theorem style_write_failure_counterexample:
  "fst (set_borderless_fullscreen (refusing SetWindowLong_STYLE initial_app) 5 None)
     = Raised (OSError SetWindowLong_STYLE 5)
   \<and> window_style_cache (refusing SetWindowLong_STYLE initial_app) 5 = None
   \<and> window_style_cache
        (snd (set_borderless_fullscreen (refusing SetWindowLong_STYLE initial_app) 5 None)) 5
       = Some (0x14CF0000, 0x00000100, (100, 100, 900, 700))"
  by (simp add: example_defs transform_defs)

section \<open>Revert\<close>

lemma pop_first_None: "pop_first h ws = None \<longleftrightarrow> h \<notin> hwnd ` set ws"
  by (induction ws) (auto split: option.splits)

lemma forget_pid_mapping_map_of:
  "os_read sys GetWindowThreadProcessId h w_pid = Inr p \<Longrightarrow> p \<noteq> 0 \<Longrightarrow>
     map_of (forget_pid_mapping sys h prefs) = (map_of prefs)(p := None)"
  by (cases "map_of prefs p") (auto simp: forget_pid_mapping_def delete_conv' fun_eq_iff)

lemma forget_pid_mapping_unresolved:
  "os_read sys GetWindowThreadProcessId h w_pid = Inl e \<Longrightarrow>
     forget_pid_mapping sys h prefs = prefs"
  by (simp add: forget_pid_mapping_def)

text \<open>The owner is read once the writes have been made: two calls after the revert began
  when the style write was refused, three calls after it otherwise.\<close>

lemma restore_window_owner:
  "os_read (restore_window sys h snap) GetWindowThreadProcessId h w_pid
     = os_read (at_call sys (calls (restore_window sys h snap))) GetWindowThreadProcessId h w_pid"
  "calls (restore_window sys h snap)
     = (if os_write sys SetWindowLong_STYLE h id = Inl (OSError SetWindowLong_STYLE h)
        then calls sys + 2 else calls sys + 3)"
  by (auto simp: restore_window_def restore_rect_def restore_styles_def os_write_def os_read_def
                 set_window_pos_def called_def at_call_def
           split: sum.splits option.splits prod.splits if_splits)

text \<open>
  Claim C5, as amended. For a handle that has a cache entry, \<^verbatim>\<open>revert_to_windowed\<close>
  removes the entry and, when the owning process id is resolved and not 0, the preference
  of that process (when it is not resolved, the preferences stay as they are), whatever
  the writes to the window did; it leaves the set of fullscreen handles as it is. The
  owner is the one the operating system reports once the writes have been made (line
  229). The handle leaves the set in the caller: \<^verbatim>\<open>App.revert_windowed\<close>, on a
  selected handle that the fullscreen list holds, ends with the handle neither cached nor
  in the set.
\<close>

theorem revert_pops_snapshot_and_preference:
  fixes a :: App
  assumes "window_style_cache a h = Some snap"
  shows "window_style_cache (revert_to_windowed a h) = (window_style_cache a)(h := None)
     \<and> fullscreen_hwnds (revert_to_windowed a h) = fullscreen_hwnds a
     \<and> (\<forall>p. os_read (restore_window (os a) h snap) GetWindowThreadProcessId h w_pid = Inr p
              \<and> p \<noteq> 0 \<longrightarrow>
            map_of (last_fullscreen_by_pid (revert_to_windowed a h))
              = (map_of (last_fullscreen_by_pid a))(p := None))
     \<and> (\<forall>e. os_read (restore_window (os a) h snap) GetWindowThreadProcessId h w_pid = Inl e \<longrightarrow>
            last_fullscreen_by_pid (revert_to_windowed a h) = last_fullscreen_by_pid a)
     \<and> (selected_hwnd a = Some h \<and> h \<noteq> 0 \<and> selected_list a = Some fullscreen
          \<and> h \<in> hwnd ` set (fullscreen_windows a) \<longrightarrow>
            h \<notin> fullscreen_hwnds (revert_windowed a)
            \<and> window_style_cache (revert_windowed a) h = None)"
proof -
  let ?sys = "restore_window (os a) h snap"
  have rv: "revert_to_windowed a h =
      a\<lparr>os := called ?sys, window_style_cache := (window_style_cache a)(h := None),
        last_fullscreen_by_pid := forget_pid_mapping ?sys h (last_fullscreen_by_pid a)\<rparr>"
    using assms by (simp add: revert_to_windowed_def Let_def)
  have c1: "window_style_cache (revert_to_windowed a h) = (window_style_cache a)(h := None)"
    and c2: "fullscreen_hwnds (revert_to_windowed a h) = fullscreen_hwnds a"
    and fw: "fullscreen_windows (revert_to_windowed a h) = fullscreen_windows a"
    by (simp_all add: rv)
  have c3: "map_of (last_fullscreen_by_pid (revert_to_windowed a h))
              = (map_of (last_fullscreen_by_pid a))(p := None)"
    if "os_read ?sys GetWindowThreadProcessId h w_pid = Inr p" "p \<noteq> 0" for p
    using that by (simp add: rv forget_pid_mapping_map_of)
  have c4: "last_fullscreen_by_pid (revert_to_windowed a h) = last_fullscreen_by_pid a"
    if "os_read ?sys GetWindowThreadProcessId h w_pid = Inl e" for e
    using that by (simp add: rv forget_pid_mapping_unresolved [where e = e])
  have c5: "h \<notin> fullscreen_hwnds (revert_windowed a) \<and> window_style_cache (revert_windowed a) h = None"
    if "selected_hwnd a = Some h" "h \<noteq> 0" "selected_list a = Some fullscreen"
       "h \<in> hwnd ` set (fullscreen_windows a)"
  proof -
    from that(4) fw obtain x rest where
      "pop_first h (fullscreen_windows (revert_to_windowed a h)) = Some (x, rest)"
      using pop_first_None [of h "fullscreen_windows a"] by (cases "pop_first h (fullscreen_windows a)") auto
    then show ?thesis
      using that(1-3) c1 by (simp add: revert_windowed_def move_window_to_windowed_def)
  qed
  show ?thesis
    by (intro conjI allI impI) (simp_all add: c1 c2 c3 c4 c5)
qed

lemma app_in_fullscreen_owner:
  "os_read (restore_window (os app_in_fullscreen) 5 (0x14CF0000, 0x00000100, (100, 100, 900, 700)))
     GetWindowThreadProcessId 5 w_pid = Inr 42"
  by (simp add: revert_defs called_def app_in_fullscreen_fields example_window_def)

theorem revert_pops_snapshot_and_preference_witness:
  "window_style_cache app_in_fullscreen 5 = Some (0x14CF0000, 0x00000100, (100, 100, 900, 700))
   \<and> os_read (restore_window (os app_in_fullscreen) 5
               (0x14CF0000, 0x00000100, (100, 100, 900, 700)))
        GetWindowThreadProcessId 5 w_pid = Inr 42
   \<and> selected_hwnd app_in_fullscreen = Some 5
   \<and> selected_list app_in_fullscreen = Some fullscreen
   \<and> 5 \<in> hwnd ` set (fullscreen_windows app_in_fullscreen)
   \<and> window_style_cache (revert_to_windowed app_in_fullscreen 5) 5 = None
   \<and> fullscreen_hwnds (revert_to_windowed app_in_fullscreen 5) = {5}
   \<and> map_of (last_fullscreen_by_pid (revert_to_windowed app_in_fullscreen 5)) 42 = None
   \<and> 5 \<notin> fullscreen_hwnds (revert_windowed app_in_fullscreen)
   \<and> window_style_cache (revert_windowed app_in_fullscreen) 5 = None"
proof -
  note T = revert_pops_snapshot_and_preference [OF app_in_fullscreen_fields(2)]
  have pre: "os_read (restore_window (os app_in_fullscreen) 5
               (0x14CF0000, 0x00000100, (100, 100, 900, 700)))
        GetWindowThreadProcessId 5 w_pid = Inr 42 \<and> (42::nat) \<noteq> 0"
    "selected_hwnd app_in_fullscreen = Some 5 \<and> (5::nat) \<noteq> 0
       \<and> selected_list app_in_fullscreen = Some fullscreen
       \<and> 5 \<in> hwnd ` set (fullscreen_windows app_in_fullscreen)"
    by (simp_all add: app_in_fullscreen_fields app_in_fullscreen_owner)
  from T have "window_style_cache (revert_to_windowed app_in_fullscreen 5) 5 = None"
    by simp
  moreover from T have "fullscreen_hwnds (revert_to_windowed app_in_fullscreen 5) = {5}"
    by (simp only: app_in_fullscreen_fields)
  moreover from T pre(1)
  have "map_of (last_fullscreen_by_pid (revert_to_windowed app_in_fullscreen 5))
          = (map_of (last_fullscreen_by_pid app_in_fullscreen))(42 := None)"
    by blast
  then have "map_of (last_fullscreen_by_pid (revert_to_windowed app_in_fullscreen 5)) 42 = None"
    by simp
  moreover from T pre(2)
  have "5 \<notin> fullscreen_hwnds (revert_windowed app_in_fullscreen)
      \<and> window_style_cache (revert_windowed app_in_fullscreen) 5 = None"
    by blast
  ultimately show ?thesis
    using pre app_in_fullscreen_fields(2) by simp
qed

text \<open>
  The claim as stated fails for \<^verbatim>\<open>revert_to_windowed\<close> itself: window 5, cached and
  in the set of fullscreen handles, is after the call no longer cached and still in the
  set.
\<close>

theorem revert_leaves_membership_counterexample:
  "window_style_cache app_in_fullscreen 5 = Some (0x14CF0000, 0x00000100, (100, 100, 900, 700))
   \<and> 5 \<in> fullscreen_hwnds app_in_fullscreen
   \<and> window_style_cache (revert_to_windowed app_in_fullscreen 5) 5 = None
   \<and> 5 \<in> fullscreen_hwnds (revert_to_windowed app_in_fullscreen 5)"
  by (simp add: app_in_fullscreen_fields revert_to_windowed_def Let_def)

section \<open>Reconciliation\<close>

text \<open>A handle that is tracked or cached is left alone by the reapplication of one window.\<close>

lemma reapply_window_cases:
  assumes "reapply_window a p w = (a1, cs)"
  obtains (skipped) "a1 = a" "cs = []"
  | (called) n m r a2 where "map_of (last_fullscreen_by_pid a) p = Some (n, m)"
      "n \<noteq> []" "n = process_name w"
      "hwnd w \<notin> fullscreen_hwnds a" "window_style_cache a (hwnd w) = None"
      "set_borderless_fullscreen a (hwnd w) m = (r, a2)"
      "a1 = a2 \<or> a1 = a2\<lparr>fullscreen_hwnds := insert (hwnd w) (fullscreen_hwnds a2)\<rparr>"
      "cs = [(hwnd w, m)]"
  using assms
  by (auto simp: reapply_window_def split: option.splits prod.splits if_splits outcome.splits)

lemma reapply_window_settled:
  assumes "reapply_window a p w = (a1, cs)"
    and "h \<in> fullscreen_hwnds a \<or> window_style_cache a h \<noteq> None"
  shows "(h \<in> fullscreen_hwnds a1 \<longleftrightarrow> h \<in> fullscreen_hwnds a)
         \<and> window_style_cache a1 h = window_style_cache a h"
  using assms(1)
proof (cases rule: reapply_window_cases)
  case skipped
  then show ?thesis by simp
next
  case (called n m r a2)
  from called(4,5) assms(2) have ne: "h \<noteq> hwnd w" by auto
  from set_borderless_fullscreen_fullscreen_hwnds [OF called(6)]
  have "fullscreen_hwnds a2 = fullscreen_hwnds a" .
  moreover from set_borderless_fullscreen_cache_other [OF called(6) ne]
  have "window_style_cache a2 h = window_style_cache a h" .
  ultimately show ?thesis
    using called(7) ne by auto
qed

lemma reapply_windows_settled:
  assumes "reapply_windows a p ws = (a1, cs)"
    and "h \<in> fullscreen_hwnds a \<or> window_style_cache a h \<noteq> None"
  shows "(h \<in> fullscreen_hwnds a1 \<longleftrightarrow> h \<in> fullscreen_hwnds a)
         \<and> window_style_cache a1 h = window_style_cache a h"
  using assms
proof (induction ws arbitrary: a cs)
  case Nil
  then show ?case by simp
next
  case (Cons w ws)
  obtain b c1 where b: "reapply_window a p w = (b, c1)"
    by (cases "reapply_window a p w") auto
  obtain c2 where r: "reapply_windows b p ws = (a1, c2)"
    using Cons.prems(1) b by (auto split: prod.splits)
  from reapply_window_settled [OF b Cons.prems(2)]
  have s: "(h \<in> fullscreen_hwnds b \<longleftrightarrow> h \<in> fullscreen_hwnds a)
         \<and> window_style_cache b h = window_style_cache a h" .
  with Cons.prems(2) have "h \<in> fullscreen_hwnds b \<or> window_style_cache b h \<noteq> None"
    by simp
  from Cons.IH [OF r this] s show ?case by simp
qed

lemma reapply_pids_settled:
  assumes "reapply_pids a ps windows = (a1, cs)"
    and "h \<in> fullscreen_hwnds a \<or> window_style_cache a h \<noteq> None"
  shows "(h \<in> fullscreen_hwnds a1 \<longleftrightarrow> h \<in> fullscreen_hwnds a)
         \<and> window_style_cache a1 h = window_style_cache a h"
  using assms
proof (induction ps arbitrary: a cs)
  case Nil
  then show ?case by simp
next
  case (Cons p ps)
  obtain b c1 where b: "reapply_windows a p (filter (\<lambda>w. pid w = Some p) windows) = (b, c1)"
    by (cases "reapply_windows a p (filter (\<lambda>w. pid w = Some p) windows)") auto
  obtain c2 where r: "reapply_pids b ps windows = (a1, c2)"
    using Cons.prems(1) b by (auto split: prod.splits)
  from reapply_windows_settled [OF b Cons.prems(2)]
  have s: "(h \<in> fullscreen_hwnds b \<longleftrightarrow> h \<in> fullscreen_hwnds a)
         \<and> window_style_cache b h = window_style_cache a h" .
  with Cons.prems(2) have "h \<in> fullscreen_hwnds b \<or> window_style_cache b h \<noteq> None"
    by simp
  from Cons.IH [OF r this] s show ?case by simp
qed

lemma auto_reapply_settled:
  assumes "h \<in> fullscreen_hwnds a \<or> window_style_cache a h \<noteq> None"
  shows "(h \<in> fullscreen_hwnds (fst (auto_reapply a windows)) \<longleftrightarrow> h \<in> fullscreen_hwnds a)
         \<and> window_style_cache (fst (auto_reapply a windows)) h = window_style_cache a h"
  using reapply_pids_settled [OF _ assms, of "map fst (last_fullscreen_by_pid a)" windows]
  by (simp add: auto_reapply_def prod_eq_iff)

text \<open>What a pass leaves, in terms of the state after the reapplication.\<close>

lemma update_windows_lists_fields:
  fixes a :: App and windows :: "WindowInfo list"
  defines "a1 \<equiv> fst (auto_reapply a windows)"
  shows "fullscreen_windows (update_windows_lists a windows) = filter (is_tracked_fullscreen a1) windows"
    and "windowed_windows (update_windows_lists a windows)
           = filter (\<lambda>w. \<not> is_tracked_fullscreen a1 w) windows"
    and "fullscreen_hwnds (update_windows_lists a windows)
           = fullscreen_hwnds a1 \<inter> hwnd ` set (filter (is_tracked_fullscreen a1) windows)"
    and "window_style_cache (update_windows_lists a windows)
           = (\<lambda>h. if h \<in> fullscreen_hwnds a1 - hwnd ` set (filter (is_tracked_fullscreen a1) windows)
                   then None else window_style_cache a1 h)"
  unfolding a1_def
  by (auto simp: update_windows_lists_def Let_def cleanup_def restore_selection_def
           split: option.splits list_name.splits)

text \<open>
  Claim C9. A handle that is in the set of fullscreen handles and has no cache entry is,
  after \<^verbatim>\<open>update_windows_lists\<close>, out of the set and out of the fullscreen list, and
  every enumerated window with that handle is in the windowed list. A cache entry whose
  handle is not in the set is still there after the pass, with the same snapshot, and
  its handle is still not in the set.
\<close>

theorem reconciliation_repairs_membership_only:
  "(h \<in> fullscreen_hwnds a \<and> window_style_cache a h = None \<longrightarrow>
      h \<notin> fullscreen_hwnds (update_windows_lists a windows)
      \<and> h \<notin> hwnd ` set (fullscreen_windows (update_windows_lists a windows))
      \<and> (\<forall>w \<in> set windows. hwnd w = h \<longrightarrow>
            w \<in> set (windowed_windows (update_windows_lists a windows))))
   \<and> (h \<notin> fullscreen_hwnds a \<and> window_style_cache a h = Some v \<longrightarrow>
      window_style_cache (update_windows_lists a windows) h = Some v
      \<and> h \<notin> fullscreen_hwnds (update_windows_lists a windows))"
proof (intro conjI impI)
  assume "h \<in> fullscreen_hwnds a \<and> window_style_cache a h = None"
  then have "window_style_cache (fst (auto_reapply a windows)) h = None"
    using auto_reapply_settled [of h a windows] by simp
  then have nt: "\<forall>w. hwnd w = h \<longrightarrow> \<not> is_tracked_fullscreen (fst (auto_reapply a windows)) w"
    by (simp add: is_tracked_fullscreen_def)
  then show "h \<notin> fullscreen_hwnds (update_windows_lists a windows)"
    by (auto simp: update_windows_lists_fields)
  from nt show "h \<notin> hwnd ` set (fullscreen_windows (update_windows_lists a windows))"
    by (auto simp: update_windows_lists_fields)
  from nt show "\<forall>w \<in> set windows. hwnd w = h \<longrightarrow>
            w \<in> set (windowed_windows (update_windows_lists a windows))"
    by (auto simp: update_windows_lists_fields)
next
  assume "h \<notin> fullscreen_hwnds a \<and> window_style_cache a h = Some v"
  then have s: "h \<notin> fullscreen_hwnds (fst (auto_reapply a windows))"
    "window_style_cache (fst (auto_reapply a windows)) h = Some v"
    using auto_reapply_settled [of h a windows] by simp_all
  then show "window_style_cache (update_windows_lists a windows) h = Some v"
    by (simp add: update_windows_lists_fields)
  from s show "h \<notin> fullscreen_hwnds (update_windows_lists a windows)"
    by (simp add: update_windows_lists_fields)
qed

theorem reconciliation_repairs_membership_only_witness:
  "5 \<in> fullscreen_hwnds app_reverted_only
   \<and> window_style_cache app_reverted_only 5 = None
   \<and> 5 \<notin> fullscreen_hwnds (run_async_enum_windows app_reverted_only)
   \<and> 5 \<notin> hwnd ` set (fullscreen_windows (run_async_enum_windows app_reverted_only))
   \<and> \<lparr>hwnd = 5, pid = Some 42, process_name = ''App.exe'', title = [65]\<rparr>
        \<in> set (windowed_windows (run_async_enum_windows app_reverted_only))
   \<and> 5 \<notin> fullscreen_hwnds app_write_refused
   \<and> window_style_cache app_write_refused 5 = Some (0x14CF0000, 0x00000100, (100, 100, 900, 700))
   \<and> window_style_cache (run_async_enum_windows app_write_refused) 5
        = Some (0x14CF0000, 0x00000100, (100, 100, 900, 700))
   \<and> 5 \<notin> fullscreen_hwnds (run_async_enum_windows app_write_refused)"
proof -
  let ?w = "\<lparr>hwnd = 5, pid = Some 42, process_name = ''App.exe'', title = [65]\<rparr>"
  let ?a = "app_reverted_only\<lparr>os := snd (enum_windows (os app_reverted_only))\<rparr>"
  let ?b = "app_write_refused\<lparr>os := snd (enum_windows (os app_write_refused))\<rparr>"
  have pre1: "5 \<in> fullscreen_hwnds ?a \<and> window_style_cache ?a 5 = None"
    by (simp add: app_reverted_only_fields)
  have pre2: "5 \<notin> fullscreen_hwnds ?b
     \<and> window_style_cache ?b 5 = Some (0x14CF0000, 0x00000100, (100, 100, 900, 700))"
    by (simp add: app_write_refused_fields)
  from reconciliation_repairs_membership_only
         [of 5 ?a "[?w]" "(0x14CF0000, 0x00000100, (100, 100, 900, 700))"] pre1
  have "5 \<notin> fullscreen_hwnds (update_windows_lists ?a [?w])
      \<and> 5 \<notin> hwnd ` set (fullscreen_windows (update_windows_lists ?a [?w]))
      \<and> ?w \<in> set (windowed_windows (update_windows_lists ?a [?w]))"
    by simp
  moreover
  from reconciliation_repairs_membership_only
         [of 5 ?b "[?w]" "(0x14CF0000, 0x00000100, (100, 100, 900, 700))"] pre2
  have "window_style_cache (update_windows_lists ?b [?w]) 5
          = Some (0x14CF0000, 0x00000100, (100, 100, 900, 700))
      \<and> 5 \<notin> fullscreen_hwnds (update_windows_lists ?b [?w])"
    by simp
  ultimately show ?thesis
    using pre1 pre2
    by (simp add: run_async_enum_windows_eq app_reverted_only_fields app_write_refused_fields)
qed

text \<open>
  Claim C2, as amended. After \<^verbatim>\<open>update_windows_lists\<close>, from any state and for any
  enumeration, every handle in the set of fullscreen handles has a cache entry, and the
  set is the set of handles of the fullscreen list. The converse is only preserved, not
  established: a cache entry whose handle is not in the set before the pass is still
  there after it, and its handle is still not in the set.
\<close>

theorem members_are_cached_after_reconciliation:
  "fullscreen_hwnds (update_windows_lists a windows)
     \<subseteq> dom (window_style_cache (update_windows_lists a windows))
   \<and> fullscreen_hwnds (update_windows_lists a windows)
       = hwnd ` set (fullscreen_windows (update_windows_lists a windows))
   \<and> (\<forall>h. h \<notin> fullscreen_hwnds a \<and> window_style_cache a h \<noteq> None \<longrightarrow>
          h \<notin> fullscreen_hwnds (update_windows_lists a windows)
          \<and> window_style_cache (update_windows_lists a windows) h = window_style_cache a h)"
proof (intro conjI allI impI)
  show "fullscreen_hwnds (update_windows_lists a windows)
     \<subseteq> dom (window_style_cache (update_windows_lists a windows))"
    by (auto simp: update_windows_lists_fields is_tracked_fullscreen_def)
  show "fullscreen_hwnds (update_windows_lists a windows)
       = hwnd ` set (fullscreen_windows (update_windows_lists a windows))"
    by (auto simp: update_windows_lists_fields is_tracked_fullscreen_def)
next
  fix h
  assume h: "h \<notin> fullscreen_hwnds a \<and> window_style_cache a h \<noteq> None"
  then have s: "h \<notin> fullscreen_hwnds (fst (auto_reapply a windows))"
    "window_style_cache (fst (auto_reapply a windows)) h = window_style_cache a h"
    using auto_reapply_settled [of h a windows] by simp_all
  then show "h \<notin> fullscreen_hwnds (update_windows_lists a windows)"
    by (simp add: update_windows_lists_fields)
  from s show "window_style_cache (update_windows_lists a windows) h = window_style_cache a h"
    by (simp add: update_windows_lists_fields)
qed

theorem members_are_cached_after_reconciliation_witness:
  "fullscreen_hwnds (run_async_enum_windows app_in_fullscreen) = {5}
   \<and> {5} \<subseteq> dom (window_style_cache (run_async_enum_windows app_in_fullscreen))
   \<and> {5} = hwnd ` set (fullscreen_windows (run_async_enum_windows app_in_fullscreen))
   \<and> 5 \<notin> fullscreen_hwnds app_write_refused
   \<and> window_style_cache app_write_refused 5 \<noteq> None
   \<and> 5 \<notin> fullscreen_hwnds (run_async_enum_windows app_write_refused)
   \<and> window_style_cache (run_async_enum_windows app_write_refused) 5
       = window_style_cache app_write_refused 5"
proof -
  let ?a = "app_in_fullscreen\<lparr>os := snd (enum_windows (os app_in_fullscreen))\<rparr>"
  let ?b = "app_write_refused\<lparr>os := snd (enum_windows (os app_write_refused))\<rparr>"
  have pre: "5 \<notin> fullscreen_hwnds app_write_refused
      \<and> window_style_cache app_write_refused 5 \<noteq> None"
    by (simp add: app_write_refused_fields)
  then have pre': "5 \<notin> fullscreen_hwnds ?b \<and> window_style_cache ?b 5 \<noteq> None"
    by simp
  from members_are_cached_after_reconciliation
         [of ?a "fst (enum_windows (os app_in_fullscreen))"]
  have "{5} \<subseteq> dom (window_style_cache (run_async_enum_windows app_in_fullscreen))
      \<and> {5} = hwnd ` set (fullscreen_windows (run_async_enum_windows app_in_fullscreen))"
    unfolding run_async_enum_windows_eq [symmetric] pass_in_fullscreen(1) by blast
  moreover
  from members_are_cached_after_reconciliation
         [of ?b "fst (enum_windows (os app_write_refused))"] pre'
  have "5 \<notin> fullscreen_hwnds (run_async_enum_windows app_write_refused)
      \<and> window_style_cache (run_async_enum_windows app_write_refused) 5
          = window_style_cache ?b 5"
    unfolding run_async_enum_windows_eq [symmetric] by blast
  then have "5 \<notin> fullscreen_hwnds (run_async_enum_windows app_write_refused)
      \<and> window_style_cache (run_async_enum_windows app_write_refused) 5
          = window_style_cache app_write_refused 5"
    by simp
  ultimately show ?thesis
    using pre pass_in_fullscreen(1) by (elim conjE) (intro conjI; assumption)
qed

text \<open>
  The claim as stated fails: the application is started, refreshed, window 5 is selected
  and made fullscreen while the operating system refuses the style write, and the lists
  are refreshed again. After that pass window 5 has a cache entry and is not in the set
  of fullscreen handles.
\<close>

theorem cache_entry_without_membership_counterexample:
  "window_style_cache (run_async_enum_windows app_write_refused) 5
     = Some (0x14CF0000, 0x00000100, (100, 100, 900, 700))
   \<and> 5 \<notin> fullscreen_hwnds (run_async_enum_windows app_write_refused)"
  by (simp add: pass_after_refused_write)

section \<open>The timer\<close>

text \<open>
  Claim C8, as amended. A run of \<^verbatim>\<open>update_windows_periodically\<close> schedules itself
  again after 3000 milliseconds when the window is not minimized and after 10000
  milliseconds when it is; it schedules the enumeration and the update of the lists only
  when the window is not minimized.
\<close>

theorem timer_refreshes_only_when_not_minimized:
  "update_windows_periodically a =
     (if is_minimized a then [after 10000] else [async_enum_windows, after 3000])"
  by (simp add: update_windows_periodically_def refresh_windows_def)

text \<open>
  The claim as stated fails in its second half: with the window minimized, a run of the
  timer schedules no enumeration, only itself after 10000 milliseconds.
\<close>

theorem no_refresh_while_minimized_counterexample:
  "async_enum_windows \<notin> set (update_windows_periodically (initial_app\<lparr>is_minimized := True\<rparr>))
   \<and> update_windows_periodically (initial_app\<lparr>is_minimized := True\<rparr>) = [after 10000]"
  by (simp add: update_windows_periodically_def refresh_windows_def)

section \<open>Enumeration\<close>

lemma at_call_simps [simp]:
  "at_call sys (calls sys) = sys"
  "at_call (at_call sys k) n = at_call sys n"
  "calls (at_call sys k) = k"
  "wins (at_call sys k) = wins sys"
  "refuses (at_call sys k) = refuses sys"
  "process_name_of (at_call sys k) = process_name_of sys"
  by (simp_all add: at_call_def)

lemma called_at_call: "called sys = at_call sys (Suc (calls sys))"
  by (simp add: called_def at_call_def)

lemma made_by_calls_at_call [simp]:
  "made_by_calls (at_call sys k) n w = made_by_calls sys n w"
  by (simp add: made_by_calls_def)

lemma get_process_info_os:
  "\<exists>k. calls sys \<le> k \<and> snd (get_process_info sys h) = at_call sys k"
proof -
  have "snd (get_process_info sys h) = at_call sys (Suc (Suc (calls sys)))
      \<or> snd (get_process_info sys h) = at_call sys (Suc (Suc (Suc (calls sys))))"
    by (simp add: get_process_info_def called_at_call Let_def
             split: sum.splits psutil_name.splits)
  then show ?thesis
    by (metis le_SucI order_refl)
qed

lemma get_process_info_fields:
  "hwnd (fst (get_process_info sys h)) = h"
  "title (fst (get_process_info sys h))
     = (case os_read sys GetWindowText h w_title of Inl e \<Rightarrow> [] | Inr t \<Rightarrow> t)"
  by (simp_all add: get_process_info_def Let_def split: sum.splits psutil_name.splits)

lemma get_process_info_pid:
  assumes "pid (fst (get_process_info sys h)) = Some p"
  shows "os_read (at_call sys (calls sys + 1)) GetWindowThreadProcessId h w_pid = Inr p
       \<and> process_name_of sys (calls sys + 2) p \<noteq> OtherFailure
       \<and> process_name (fst (get_process_info sys h))
           = (case process_name_of sys (calls sys + 2) p of Name nm \<Rightarrow> nm | _ \<Rightarrow> ''Unknown'')"
  using assms
  by (auto simp: get_process_info_def called_at_call Let_def
           split: sum.splits psutil_name.splits)

lemma callback_os:
  "\<exists>k. calls sys \<le> k \<and> snd (callback (acc, sys) h) = at_call sys k"
proof -
  let ?sys2 = "at_call sys (Suc (Suc (calls sys)))"
  from get_process_info_os [of ?sys2 h] obtain k where
    k: "Suc (Suc (calls sys)) \<le> k" "snd (get_process_info ?sys2 h) = at_call sys k"
    by auto
  have "snd (callback (acc, sys) h) = at_call sys (Suc (calls sys))
      \<or> snd (callback (acc, sys) h) = at_call sys (Suc (Suc (calls sys)))
      \<or> snd (callback (acc, sys) h) = snd (get_process_info ?sys2 h)"
    by (simp add: callback_def called_at_call Let_def split: sum.splits prod.splits)
  with k show ?thesis
    by (metis Suc_leD le_SucI order_refl)
qed

lemma callback_appended:
  assumes "fst (callback (acc, sys) h) \<noteq> acc"
  shows "\<exists>w. fst (callback (acc, sys) h) = acc @ [w] \<and> hwnd w = h
            \<and> made_by_calls sys (calls sys) w"
proof -
  let ?sys2 = "at_call sys (Suc (Suc (calls sys)))"
  let ?wi = "fst (get_process_info ?sys2 h)"
  let ?w = "if process_name ?wi = [] then ?wi\<lparr>process_name := ''Unknown''\<rparr> else ?wi"
  from assms obtain t where
    vis: "os_read sys IsWindowVisible h w_visible = Inr True"
    and t: "os_read (at_call sys (Suc (calls sys))) GetWindowText h w_title = Inr t"
      "t \<noteq> []" "\<not> isspace t"
    and p: "pid ?wi \<noteq> None"
    and c: "fst (callback (acc, sys) h) = acc @ [?w]"
    by (auto simp: callback_def called_at_call Let_def split: sum.splits if_splits prod.splits)
  from p obtain q where q: "pid ?wi = Some q" by auto
  note G = get_process_info_pid [OF q]
  have h: "hwnd ?w = h" and ti: "title ?w
     = (case os_read ?sys2 GetWindowText h w_title of Inl e \<Rightarrow> [] | Inr t \<Rightarrow> t)"
    and pw: "pid ?w = Some q"
    using q by (simp_all add: get_process_info_fields)
  have nm: "process_name ?w
      = (case process_name_of sys (calls sys + 4) q of
           Name nm \<Rightarrow> if nm = [] then ''Unknown'' else nm
         | _ \<Rightarrow> ''Unknown'')"
    using G by (auto simp: eval_nat_numeral split: psutil_name.splits)
  have "made_by_calls sys (calls sys) ?w"
    unfolding made_by_calls_def
    apply (rule exI [of _ t], rule exI [of _ q])
    using vis t G h ti pw nm
    by (simp add: isspace_def eval_nat_numeral)
  with c h show ?thesis by blast
qed

lemma foldl_callback_enumerated:
  assumes "\<forall>w \<in> set acc. enumerated sys0 w" and "calls sys0 \<le> k"
  shows "\<forall>w \<in> set (fst (foldl callback (acc, at_call sys0 k) hs)). enumerated sys0 w"
  using assms
proof (induction hs arbitrary: acc k)
  case Nil
  then show ?case by simp
next
  case (Cons h hs)
  let ?c = "callback (acc, at_call sys0 k) h"
  from callback_os [of "at_call sys0 k" acc h] obtain k' where
    k': "k \<le> k'" "snd ?c = at_call sys0 k'"
    by auto
  have "\<forall>w \<in> set (fst ?c). enumerated sys0 w"
  proof (cases "fst ?c = acc")
    case True
    with Cons.prems(1) show ?thesis by simp
  next
    case False
    from callback_appended [OF False] obtain w where
      "fst ?c = acc @ [w]" "made_by_calls sys0 k w"
      by auto
    with Cons.prems show ?thesis
      by (auto simp: enumerated_def)
  qed
  from Cons.IH [OF this, of k'] k' Cons.prems(2)
  have "\<forall>w \<in> set (fst (foldl callback (fst ?c, at_call sys0 k') hs)). enumerated sys0 w"
    by simp
  moreover have eq: "?c = (fst ?c, at_call sys0 k')"
    using k'(2) by (simp add: prod_eq_iff)
  ultimately show ?case
    unfolding foldl_Cons by (subst eq)
qed

lemma enum_windows_enumerated:
  "w \<in> set (fst (enum_windows sys)) \<Longrightarrow> enumerated sys w"
  using foldl_callback_enumerated [of "[]" sys "calls sys"]
  by (simp add: enum_windows_def)


lemma callback_hwnds:
  "map hwnd (fst (callback (acc, sys) h)) = map hwnd acc
   \<or> map hwnd (fst (callback (acc, sys) h)) = map hwnd acc @ [h]"
  using callback_appended [of acc sys h] by (cases "fst (callback (acc, sys) h) = acc") auto

lemma foldl_callback_distinct:
  assumes "distinct (map hwnd acc @ hs)"
  shows "distinct (map hwnd (fst (foldl callback (acc, sys) hs)))
       \<and> set (map hwnd (fst (foldl callback (acc, sys) hs))) \<subseteq> set (map hwnd acc) \<union> set hs"
  using assms
proof (induction hs arbitrary: acc sys)
  case Nil
  then show ?case by simp
next
  case (Cons h hs)
  let ?c = "callback (acc, sys) h"
  from callback_hwnds [of acc sys h] consider
    (same) "map hwnd (fst ?c) = map hwnd acc"
  | (appended) "map hwnd (fst ?c) = map hwnd acc @ [h]"
    by blast
  then have "distinct (map hwnd (fst ?c) @ hs)
      \<and> set (map hwnd (fst ?c)) \<subseteq> set (map hwnd acc) \<union> {h}"
  proof cases
    case same
    show ?thesis unfolding same using Cons.prems by auto
  next
    case appended
    show ?thesis unfolding appended using Cons.prems by auto
  qed
  then have d: "distinct (map hwnd (fst ?c) @ hs)"
    and s: "set (map hwnd (fst ?c)) \<subseteq> set (map hwnd acc) \<union> {h}"
    by simp_all
  from Cons.IH [OF d, of "snd ?c"]
  have "distinct (map hwnd (fst (foldl callback ?c hs)))
      \<and> set (map hwnd (fst (foldl callback ?c hs))) \<subseteq> set (map hwnd (fst ?c)) \<union> set hs"
    by simp
  with s show ?case
    by (simp only: foldl_Cons list.set(2)) blast
qed

text \<open>An enumeration that visits every top-level window once gives records with
  distinct handles.\<close>

lemma enum_windows_distinct:
  assumes "distinct (toplevel sys)"
  shows "distinct (map hwnd (fst (enum_windows sys)))"
proof -
  have "distinct (case enum_stops_after sys of None \<Rightarrow> toplevel sys
                  | Some n \<Rightarrow> take n (toplevel sys))"
    using assms by (simp split: option.splits)
  then show ?thesis
    using foldl_callback_distinct [of "[]"] by (simp add: enum_windows_def)
qed

text \<open>
  Claim C10. Every record that \<^verbatim>\<open>enum_windows\<close> returns has a process id, the one
  the operating system has resolved for its handle during the enumeration (so a window
  whose process id cannot be resolved has no record), and a process name that is not
  empty; its window was reported visible, with a title that is neither empty nor made of
  whitespace only. The title of the record is that title, or empty when the second read
  of the title (line 64) was refused.
\<close>

theorem enum_windows_records:
  assumes "w \<in> set (fst (enum_windows sys))"
  shows "\<exists>n t p. calls sys \<le> n
     \<and> pid w = Some p
     \<and> os_read (at_call sys (n + 3)) GetWindowThreadProcessId (hwnd w) w_pid = Inr p
     \<and> process_name w \<noteq> []
     \<and> os_read (at_call sys n) IsWindowVisible (hwnd w) w_visible = Inr True
     \<and> os_read (at_call sys (n + 1)) GetWindowText (hwnd w) w_title = Inr t
     \<and> t \<noteq> [] \<and> \<not> list_all is_whitespace t
     \<and> (title w = t \<or> title w = [])"
proof -
  from enum_windows_enumerated [OF assms] obtain n t p where n: "calls sys \<le> n"
    and v: "os_read (at_call sys n) IsWindowVisible (hwnd w) w_visible = Inr True"
    and t: "os_read (at_call sys (n + 1)) GetWindowText (hwnd w) w_title = Inr t"
      "t \<noteq> []" "\<not> list_all is_whitespace t"
    and t': "title w =
            (case os_read (at_call sys (n + 2)) GetWindowText (hwnd w) w_title of
               Inl e \<Rightarrow> []
             | Inr t' \<Rightarrow> t')"
    and p: "os_read (at_call sys (n + 3)) GetWindowThreadProcessId (hwnd w) w_pid = Inr p"
      "pid w = Some p"
    and nm: "process_name w =
            (case process_name_of sys (n + 4) p of
               Name nm \<Rightarrow> if nm = [] then ''Unknown'' else nm
             | _ \<Rightarrow> ''Unknown'')"
    unfolding enumerated_def made_by_calls_def by blast
  have "title w = t \<or> title w = []"
    using t(1) t'
    by (auto simp: os_read_def split: option.splits if_splits sum.splits)
  moreover have "process_name w \<noteq> []"
    using nm by (auto split: psutil_name.splits)
  ultimately show ?thesis
    using n v t p by blast
qed

theorem enum_windows_records_witness:
  "\<lparr>hwnd = 5, pid = Some 42, process_name = ''App.exe'', title = [65]\<rparr>
     \<in> set (fst (enum_windows example_os))
   \<and> (\<exists>n. os_read (at_call example_os (n + 3)) GetWindowThreadProcessId 5 w_pid = Inr 42
         \<and> os_read (at_call example_os (n + 1)) GetWindowText 5 w_title = Inr [65])"
proof -
  have m: "\<lparr>hwnd = 5, pid = Some 42, process_name = ''App.exe'', title = [65]\<rparr>
     \<in> set (fst (enum_windows example_os))"
    by (simp add: enum_windows_example)
  from enum_windows_records [OF m] m show ?thesis by auto
qed

section \<open>The reapplication policy\<close>

lemma read_snapshot_calls: "calls sys \<le> calls (snd (read_snapshot sys h))"
  by (auto simp: read_snapshot_def called_def Let_def split: sum.splits)

lemma cache_original_calls:
  "cache_original s h = (r, s1) \<Longrightarrow> calls (os s) \<le> calls (os s1)"
  using read_snapshot_calls [of "os s" h]
  by (auto simp: cache_original_def split: if_splits sum.splits prod.splits)

lemma store_pid_mapping_calls:
  "store_pid_mapping s h m = (r, s2) \<Longrightarrow> calls (os s) \<le> calls (os s2)"
  by (auto simp: store_pid_mapping_def called_def Let_def
           split: if_splits sum.splits psutil_name.splits)

lemma strip_and_resize_calls:
  "strip_and_resize sys h m = (r, sys') \<Longrightarrow> calls sys \<le> calls sys'"
  by (auto simp: strip_and_resize_def os_read_def os_write_def set_window_pos_def called_def
                 Let_def
           split: if_splits sum.splits option.splits prod.splits)

lemma set_borderless_fullscreen_calls:
  assumes "set_borderless_fullscreen s h m = (r, s')"
  shows "calls (os s) \<le> calls (os s')"
  using assms
proof (cases rule: set_borderless_fullscreen_cases)
  case (read_failed e)
  then show ?thesis by (simp add: cache_original_calls)
next
  case (psutil_failed s1 e)
  from cache_original_calls [OF psutil_failed(1)] store_pid_mapping_calls [OF psutil_failed(2)]
  show ?thesis by simp
next
  case (stripped s1 s2 sys')
  from cache_original_calls [OF stripped(1)] store_pid_mapping_calls [OF stripped(2)]
    strip_and_resize_calls [OF stripped(3)] stripped(4)
  show ?thesis by simp
qed

text \<open>Agreement lasts: it speaks of the calls still to come, and neither the owner of a
  window nor the answers of \<^verbatim>\<open>psutil\<close> are changed by the program.\<close>

lemma agrees_with_os_later:
  assumes "agrees_with_os sys w"
    and "map_option w_pid (wins sys' (hwnd w)) = map_option w_pid (wins sys (hwnd w))"
    and "process_name_of sys' = process_name_of sys"
    and "calls sys \<le> calls sys'"
  shows "agrees_with_os sys' w"
proof (cases "wins sys' (hwnd w)")
  case None
  then show ?thesis by (simp add: agrees_with_os_def)
next
  case (Some win')
  with assms(2) obtain win where win: "wins sys (hwnd w) = Some win" "w_pid win = w_pid win'"
    by (cases "wins sys (hwnd w)") auto
  from assms(1) win have "w_pid win' = 0 \<or>
          (pid w = Some (w_pid win') \<and>
           (\<forall>n. calls sys \<le> n \<longrightarrow>
              (case process_name_of sys n (w_pid win') of
                 Name nm \<Rightarrow> nm = process_name w
               | OtherFailure \<Rightarrow> True
               | _ \<Rightarrow> process_name w = ''Unknown'')))"
    by (simp add: agrees_with_os_def)
  with assms(3,4) Some show ?thesis
    by (auto simp: agrees_with_os_def)
qed

lemma set_borderless_fullscreen_agrees:
  assumes "set_borderless_fullscreen s h m = (r, s')" and "agrees_with_os (os s) w"
  shows "agrees_with_os (os s') w"
proof -
  note W = set_borderless_fullscreen_wins [OF assms(1)]
  have "map_option w_pid (wins (os s') (hwnd w)) = map_option w_pid (wins (os s) (hwnd w))"
    using W by (cases "hwnd w = h") simp_all
  with assms(2) W set_borderless_fullscreen_calls [OF assms(1)] show ?thesis
    by (intro agrees_with_os_later [of "os s" w "os s'"]) simp_all
qed

lemma store_pid_mapping_agrees:
  assumes "store_pid_mapping s h m = (r, s2)"
    and "agrees_with_os (os s) w" and "hwnd w = h" and "pid w = Some p"
    and "map_of (last_fullscreen_by_pid s) p = Some (process_name w, m)"
  shows "last_fullscreen_by_pid s2 = last_fullscreen_by_pid s"
proof (cases "os_read (os s) GetWindowThreadProcessId h w_pid")
  case (Inl e)
  with assms(1) show ?thesis by (auto simp: store_pid_mapping_def Let_def)
next
  case (Inr q)
  show ?thesis
  proof (cases "q = 0")
    case True
    with assms(1) Inr show ?thesis by (auto simp: store_pid_mapping_def Let_def)
  next
    case False
    from Inr obtain win where win: "wins (os s) h = Some win" "w_pid win = q"
      by (auto simp: os_read_def split: option.splits if_splits)
    with assms(2,3,4) False have q: "q = p"
      and nm: "case process_name_of (os s) (Suc (calls (os s))) q of
                 Name nm \<Rightarrow> nm = process_name w
               | OtherFailure \<Rightarrow> True
               | _ \<Rightarrow> process_name w = ''Unknown''"
      by (auto simp: agrees_with_os_def)
    from assms(1) Inr False nm q assms(5) show ?thesis
      by (auto simp: store_pid_mapping_def called_def Let_def update_triv
               split: psutil_name.splits)
  qed
qed

lemma set_borderless_fullscreen_keeps_preference:
  assumes "set_borderless_fullscreen s (hwnd w) m = (r, s')"
    and "agrees_with_os (os s) w" and "pid w = Some p"
    and "map_of (last_fullscreen_by_pid s) p = Some (process_name w, m)"
  shows "last_fullscreen_by_pid s' = last_fullscreen_by_pid s"
  using assms(1)
proof (cases rule: set_borderless_fullscreen_cases)
  case (read_failed e)
  from read_failed(1) obtain k c where
    "s' = s\<lparr>os := (os s)\<lparr>calls := k\<rparr>, window_style_cache := c\<rparr>"
    by (rule cache_original_frameE)
  then show ?thesis by simp
next
  case (psutil_failed s1 e)
  from psutil_failed(1) obtain k c where
    s1: "s1 = s\<lparr>os := (os s)\<lparr>calls := k\<rparr>, window_style_cache := c\<rparr>"
    by (rule cache_original_frameE)
  from store_pid_mapping_Raised [OF psutil_failed(2)] s1 show ?thesis by simp
next
  case (stripped s1 s2 sys')
  from stripped(1) obtain k c where
    s1: "s1 = s\<lparr>os := (os s)\<lparr>calls := k\<rparr>, window_style_cache := c\<rparr>"
    by (rule cache_original_frameE)
  have "agrees_with_os (os s1) w"
    using assms(2) cache_original_calls [OF stripped(1)] s1
    by (intro agrees_with_os_later [of "os s" w "os s1"]) simp_all
  from store_pid_mapping_agrees [OF stripped(2) this refl assms(3)] assms(4) s1 stripped(4)
  show ?thesis by simp
qed

lemma reapply_window_calls:
  assumes "reapply_window a p w = (a1, cs)" and "process_name w \<noteq> []" and "pid w = Some p"
  shows "set cs = {(hwnd w, r) | r. candidate a p w r}"
  using assms
  by (auto simp: reapply_window_def candidate_def
           split: option.splits prod.splits if_splits outcome.splits)

lemma reapply_window_keeps_preference:
  assumes "reapply_window a p w = (a1, cs)" and "agrees_with_os (os a) w" and "pid w = Some p"
  shows "last_fullscreen_by_pid a1 = last_fullscreen_by_pid a
         \<and> (\<forall>w'. agrees_with_os (os a) w' \<longrightarrow> agrees_with_os (os a1) w')"
  using assms(1)
proof (cases rule: reapply_window_cases)
  case skipped
  then show ?thesis by simp
next
  case (called n m r a2)
  from called(1,3) have e: "map_of (last_fullscreen_by_pid a) p = Some (process_name w, m)"
    by simp
  from set_borderless_fullscreen_keeps_preference [OF called(6) assms(2,3) e]
    set_borderless_fullscreen_agrees [OF called(6)] called(7)
  show ?thesis by auto
qed

lemma reapply_window_other:
  assumes "reapply_window a p w = (a1, cs)" and "h \<noteq> hwnd w"
  shows "(h \<in> fullscreen_hwnds a1 \<longleftrightarrow> h \<in> fullscreen_hwnds a)
         \<and> window_style_cache a1 h = window_style_cache a h"
  using assms(1)
proof (cases rule: reapply_window_cases)
  case skipped
  then show ?thesis by simp
next
  case (called n m r a2)
  from set_borderless_fullscreen_fullscreen_hwnds [OF called(6)]
  have "fullscreen_hwnds a2 = fullscreen_hwnds a" .
  moreover from set_borderless_fullscreen_cache_other [OF called(6) assms(2)]
  have "window_style_cache a2 h = window_style_cache a h" .
  ultimately show ?thesis
    using called(7) assms(2) by auto
qed

lemma reapply_windows_calls:
  assumes "reapply_windows a p ws = (a1, cs)"
    and "\<forall>w \<in> set ws. pid w = Some p \<and> process_name w \<noteq> [] \<and> agrees_with_os (os a) w"
    and "distinct (map hwnd ws)"
  shows "set cs = {(hwnd w, r) | w r. w \<in> set ws \<and> candidate a p w r}
       \<and> last_fullscreen_by_pid a1 = last_fullscreen_by_pid a
       \<and> (\<forall>w'. agrees_with_os (os a) w' \<longrightarrow> agrees_with_os (os a1) w')
       \<and> (\<forall>h. h \<notin> hwnd ` set ws \<longrightarrow>
             (h \<in> fullscreen_hwnds a1 \<longleftrightarrow> h \<in> fullscreen_hwnds a)
             \<and> window_style_cache a1 h = window_style_cache a h)"
  using assms
proof (induction ws arbitrary: a cs)
  case Nil
  then show ?case by simp
next
  case (Cons w ws)
  obtain b c1 where b: "reapply_window a p w = (b, c1)"
    by (cases "reapply_window a p w") auto
  obtain c2 where r: "reapply_windows b p ws = (a1, c2)" and cs: "cs = c1 @ c2"
    using Cons.prems(1) b by (auto split: prod.splits)
  from Cons.prems(2) have w: "pid w = Some p" "process_name w \<noteq> []" "agrees_with_os (os a) w"
    by simp_all
  have c1: "set c1 = {(hwnd w, r) | r. candidate a p w r}"
    by (rule reapply_window_calls [OF b w(2) w(1)])
  have keep: "last_fullscreen_by_pid b = last_fullscreen_by_pid a"
    "\<forall>w'. agrees_with_os (os a) w' \<longrightarrow> agrees_with_os (os b) w'"
    using reapply_window_keeps_preference [OF b w(3) w(1)] by simp_all
  have other: "(h \<in> fullscreen_hwnds b \<longleftrightarrow> h \<in> fullscreen_hwnds a)
         \<and> window_style_cache b h = window_style_cache a h" if "h \<noteq> hwnd w" for h
    using reapply_window_other [OF b that] .
  have prems_b: "\<forall>w \<in> set ws. pid w = Some p \<and> process_name w \<noteq> [] \<and> agrees_with_os (os b) w"
    using Cons.prems(2) keep(2) by simp
  from Cons.prems(3) have d: "distinct (map hwnd ws)" and nw: "hwnd w \<notin> hwnd ` set ws"
    by simp_all
  note IH = Cons.IH [OF r prems_b d]
  have same: "candidate b p w' r = candidate a p w' r" if "w' \<in> set ws" for w' r
  proof -
    from that nw have "hwnd w' \<noteq> hwnd w" by (metis image_eqI)
    from other [OF this] keep(1) show ?thesis by (simp add: candidate_def)
  qed
  have "set cs = {(hwnd w, r) | r. candidate a p w r}
                 \<union> {(hwnd w', r) | w' r. w' \<in> set ws \<and> candidate a p w' r}"
    using IH c1 cs same by auto
  then have 1: "set cs = {(hwnd w', r) | w' r. w' \<in> set (w # ws) \<and> candidate a p w' r}"
    by auto
  have 2: "last_fullscreen_by_pid a1 = last_fullscreen_by_pid a"
    using IH keep(1) by simp
  have 3: "\<forall>w'. agrees_with_os (os a) w' \<longrightarrow> agrees_with_os (os a1) w'"
    using IH keep(2) by simp
  have 4: "\<forall>h. h \<notin> hwnd ` set (w # ws) \<longrightarrow>
             (h \<in> fullscreen_hwnds a1 \<longleftrightarrow> h \<in> fullscreen_hwnds a)
             \<and> window_style_cache a1 h = window_style_cache a h"
    using IH other by auto
  from 1 2 3 4 show ?case by blast
qed

lemma candidate_before:
  assumes "reapply_windows a p ws = (b, c)"
    and "last_fullscreen_by_pid b = last_fullscreen_by_pid a"
    and "candidate b p' w r"
  shows "candidate a p' w r"
proof -
  have "hwnd w \<notin> fullscreen_hwnds a \<and> window_style_cache a (hwnd w) = None"
  proof (rule ccontr)
    assume "\<not> (hwnd w \<notin> fullscreen_hwnds a \<and> window_style_cache a (hwnd w) = None)"
    then have "hwnd w \<in> fullscreen_hwnds a \<or> window_style_cache a (hwnd w) \<noteq> None"
      by simp
    from reapply_windows_settled [OF assms(1) this] this assms(3) show False
      by (auto simp: candidate_def)
  qed
  with assms(2,3) show ?thesis by (simp add: candidate_def)
qed

lemma reapply_pids_calls:
  assumes "reapply_pids a ps windows = (a1, cs)"
    and "\<forall>w \<in> set windows. process_name w \<noteq> [] \<and> agrees_with_os (os a) w"
    and "distinct (map hwnd windows)"
  shows "set cs = {(hwnd w, r) | w r p. p \<in> set ps \<and> w \<in> set windows \<and> candidate a p w r}"
  using assms
proof (induction ps arbitrary: a cs)
  case Nil
  then show ?case by simp
next
  case (Cons p ps)
  let ?ws = "filter (\<lambda>w. pid w = Some p) windows"
  obtain b c1 where b: "reapply_windows a p ?ws = (b, c1)"
    by (cases "reapply_windows a p ?ws") auto
  obtain c2 where r: "reapply_pids b ps windows = (a1, c2)" and cs: "cs = c1 @ c2"
    using Cons.prems(1) b by (auto split: prod.splits)
  have prems_ws: "\<forall>w \<in> set ?ws. pid w = Some p \<and> process_name w \<noteq> [] \<and> agrees_with_os (os a) w"
    using Cons.prems(2) by simp
  have d_ws: "distinct (map hwnd ?ws)"
    using Cons.prems(3) by (rule distinct_map_filter)
  note W = reapply_windows_calls [OF b prems_ws d_ws]
  have c1: "set c1 = {(hwnd w, r) | w r. w \<in> set windows \<and> candidate a p w r}"
    using W by (auto simp: candidate_def)
  have prems_b: "\<forall>w \<in> set windows. process_name w \<noteq> [] \<and> agrees_with_os (os b) w"
    using Cons.prems(2) W by simp
  note IH = Cons.IH [OF r prems_b Cons.prems(3)]
  have inj: "inj_on hwnd (set windows)"
    using Cons.prems(3) by (simp add: distinct_map)
  have bwd: "candidate a p' w r" if "candidate b p' w r" for p' w r
    using candidate_before [OF b _ that] W by simp
  have fwd: "candidate b p' w r" if "candidate a p' w r" "w \<in> set windows" "p' \<noteq> p" for p' w r
  proof -
    from that(1,3) have "pid w \<noteq> Some p" by (auto simp: candidate_def)
    have "hwnd w \<notin> hwnd ` set ?ws"
    proof
      assume "hwnd w \<in> hwnd ` set ?ws"
      then obtain w' where w': "w' \<in> set windows" "pid w' = Some p" "hwnd w = hwnd w'"
        by auto
      with inj that(2) have "w = w'" by (auto dest: inj_onD)
      with w'(2) \<open>pid w \<noteq> Some p\<close> show False by simp
    qed
    with W that(1) show ?thesis by (simp add: candidate_def)
  qed
  have "set cs = {(hwnd w, r) | w r. w \<in> set windows \<and> candidate a p w r}
       \<union> {(hwnd w, r) | w r p'. p' \<in> set ps \<and> w \<in> set windows \<and> candidate b p' w r}"
    using IH c1 cs by simp
  also have "\<dots> = {(hwnd w, r) | w r p'. p' \<in> set (p # ps) \<and> w \<in> set windows \<and> candidate a p' w r}"
    (is "?L = ?R")
  proof (rule set_eqI)
    fix x
    show "x \<in> ?L \<longleftrightarrow> x \<in> ?R"
    proof
      assume "x \<in> ?L"
      then show "x \<in> ?R" using bwd by fastforce
    next
      assume "x \<in> ?R"
      then obtain w r p' where x: "x = (hwnd w, r)" "p' \<in> set (p # ps)" "w \<in> set windows"
        "candidate a p' w r"
        by auto
      show "x \<in> ?L"
      proof (cases "p' = p")
        case True
        with x show ?thesis by auto
      next
        case False
        with x(2) have "p' \<in> set ps" by simp
        moreover from fwd [OF x(4,3) False] have "candidate b p' w r" .
        ultimately show ?thesis using x(1,3) by auto
      qed
    qed
  qed
  finally show ?case .
qed


end
